theory Spec2Isabelle
  imports Main "HOL-Library.AList"
begin

section \<open>State machine (state-machine.ts)\<close>

text \<open>
  The flow context is a JavaScript object used as a string-keyed dictionary. Hooks
  receive it by reference and may change it before they return or throw, so a hook is
  a function from the context to the changed context together with the message of the
  error it raised, if any. Guards are modelled as read-only: they return a boolean or
  throw. Every call of a hook, of the error handler, of a compensation action and
  every scheduled timer is appended to a trace, so that the order and the number of
  the calls can be stated. The numbers of a retry policy are JavaScript numbers that
  hold non-negative integers: they are naturals, and what the code computes from them
  is rounded as an IEEE 754 double is. The attempt counter stays below \<open>2 ^ 53\<close> and is
  exact. Timestamps are naturals.
\<close>

type_synonym 'v Context = "string \<rightharpoonup> 'v"

text \<open>The value of a numeric expression: a non-negative integer, \<open>Infinity\<close> or \<open>NaN\<close>.\<close>

datatype JsNumber = Num nat | Infinity | NaN

datatype Effect =
    ExitHook string
  | ActionHook string string
  | ValidateHook string
  | EntryHook string
  | Delay JsNumber
  | ErrorHandler string
  | CompensationHook string "string option"

type_synonym 'v Run = "'v Context \<times> Effect list"

datatype GuardOutcome = Allowed bool | GuardThrew

type_synonym 'v TransitionGuard = "'v Context \<Rightarrow> GuardOutcome"

type_synonym 'v TransitionAction = "'v Context \<Rightarrow> 'v Context \<times> string option"

datatype ValidationOutcome = VBool bool | VString string | VThrew string

type_synonym 'v ValidationFunction = "'v Context \<Rightarrow> 'v Context \<times> ValidationOutcome"

record 'v ValidationConfig =
  validate :: "'v ValidationFunction"
  errorMessage :: "string option"

datatype BackoffStrategy = Linear | Exponential

record RetryConfig =
  maxAttempts :: "nat option"
  backoff :: "BackoffStrategy option"
  delayMs :: "nat option"

record 'v Transition =
  from_state :: "string option"
  event :: string
  to :: string
  guard :: "'v TransitionGuard option"
  action :: "'v TransitionAction option"
  retry :: "RetryConfig option"

datatype NodeType = Atomic | Final | Parallel | Compound

text \<open>
  \<open>State\<close>, \<open>ParallelState\<close> and \<open>CompoundState\<close> are told apart at run time by
  their optional \<open>type\<close> field and by the presence of the other fields, so a state
  node is one record with optional fields. The region and child-state lists are only
  read by the constructor's validation and by \<open>start\<close>.
\<close>

record 'v StateNode =
  name :: string
  node_type :: "NodeType option"
  transitions :: "'v Transition list option"
  onEntry :: "'v TransitionAction option"
  onExit :: "'v TransitionAction option"
  isFinal :: "bool option"
  validation :: "'v ValidationConfig option"

record 'v StateMachineConfig =
  config_id :: string
  config_version :: "string option"
  initialState :: string
  states :: "string \<rightharpoonup> 'v StateNode"
  global_transitions :: "'v Transition list option"
  onError :: "(string \<Rightarrow> 'v TransitionAction) option"

datatype StateRef = Single string | Regions "string list"

record TransitionResult =
  success :: bool
  fromState :: StateRef
  toState :: StateRef
  result_event :: string
  error :: "string option"

definition isParallelState :: "'v StateNode \<Rightarrow> bool" where
  "isParallelState state = (node_type state = Some Parallel)"

definition isCompoundState :: "'v StateNode \<Rightarrow> bool" where
  "isCompoundState state = (node_type state = Some Compound)"

definition isAtomicState :: "'v StateNode \<Rightarrow> bool" where
  "isAtomicState state = (node_type state = None \<or> node_type state = Some Atomic)"

definition endsWith :: "string \<Rightarrow> string \<Rightarrow> bool" where
  "endsWith s suffix =
     (length suffix \<le> length s \<and> drop (length s - length suffix) s = suffix)"

text \<open>The template literal \<open>`.${t.from}`\<close>; an absent \<open>from\<close> prints as \<open>undefined\<close>.\<close>

definition dotFrom :: "'v Transition \<Rightarrow> string" where
  "dotFrom t = ''.'' @ (case from_state t of None \<Rightarrow> ''undefined'' | Some f \<Rightarrow> f)"

definition getTransitions :: "'v StateMachineConfig \<Rightarrow> string \<Rightarrow> 'v Transition list" where
  "getTransitions config stateName =
     (case states config stateName of
        None \<Rightarrow> []
      | Some state \<Rightarrow>
          (case transitions state of
             None \<Rightarrow> []
           | Some ts \<Rightarrow>
               if isAtomicState state then ts
               else if isParallelState state then ts
               else [])
          @ (case global_transitions config of
               None \<Rightarrow> []
             | Some gs \<Rightarrow>
                 filter (\<lambda>t. from_state t = Some stateName \<or> endsWith stateName (dotFrom t)) gs))"

text \<open>The loop of \<open>findTransition\<close> over the collected candidates.\<close>

fun findTransition_loop :: "'v Transition list \<Rightarrow> string \<Rightarrow> 'v Context \<Rightarrow> 'v Transition option" where
  "findTransition_loop [] ev c = None"
| "findTransition_loop (t # ts) ev c =
     (if event t = ev then
        (case guard t of
           Some g \<Rightarrow>
             (case g c of
                Allowed allowed \<Rightarrow> if allowed then Some t else findTransition_loop ts ev c
              | GuardThrew \<Rightarrow> findTransition_loop ts ev c)
         | None \<Rightarrow> Some t)
      else findTransition_loop ts ev c)"

definition findTransition :: "'v StateMachineConfig \<Rightarrow> string \<Rightarrow> string \<Rightarrow> 'v Context \<Rightarrow> 'v Transition option" where
  "findTransition config currentState ev c =
     (case states config currentState of
        None \<Rightarrow> None
      | Some state \<Rightarrow> findTransition_loop (getTransitions config currentState) ev c)"

text \<open>
  One call of an optional hook: nothing happens when it is absent; otherwise the call
  is recorded, the context is the one the hook left, and the result is the message of
  the error it raised.
\<close>

definition callHook :: "Effect \<Rightarrow> 'v TransitionAction option \<Rightarrow> 'v Run \<Rightarrow> string option \<times> 'v Run" where
  "callHook label hook run =
     (case hook of
        None \<Rightarrow> (None, run)
      | Some h \<Rightarrow> (case h (fst run) of (c', raised) \<Rightarrow> (raised, (c', snd run @ [label]))))"

text \<open>
  The validation step: \<open>true\<close> passes, a string fails with that string, any other
  value fails with the configured message or, when that is absent or empty, with the
  default one.
\<close>

definition validationDefault :: "string \<Rightarrow> string" where
  "validationDefault target = ''Validation failed for state \"'' @ target @ ''\"''"

definition callValidation :: "string \<Rightarrow> 'v ValidationConfig option \<Rightarrow> 'v Run \<Rightarrow> string option \<times> 'v Run" where
  "callValidation target v run =
     (case v of
        None \<Rightarrow> (None, run)
      | Some cfg \<Rightarrow>
          (case validate cfg (fst run) of (c', outcome) \<Rightarrow>
             ((case outcome of
                 VThrew m \<Rightarrow> Some m
               | VBool True \<Rightarrow> None
               | VString s \<Rightarrow> Some s
               | VBool False \<Rightarrow>
                   (case errorMessage cfg of
                      None \<Rightarrow> Some (validationDefault target)
                    | Some m \<Rightarrow> Some (if m = [] then validationDefault target else m))),
              (c', snd run @ [ValidateHook target]))))"

text \<open>
  The body of the \<open>try\<close> block of \<open>executeTransition\<close>: exit hook, transition action,
  lookup and validation of the target, entry hook. The result is \<open>None\<close> when the body
  reaches its \<open>return\<close> and the message of the error caught otherwise.
\<close>

definition runAttempt ::
  "'v StateMachineConfig \<Rightarrow> 'v StateNode \<Rightarrow> string \<Rightarrow> 'v Transition \<Rightarrow> 'v Run \<Rightarrow> string option \<times> 'v Run" where
  "runAttempt config state currentState transition run0 =
     (case callHook (ExitHook currentState) (onExit state) run0 of
        (Some e, run1) \<Rightarrow> (Some e, run1)
      | (None, run1) \<Rightarrow>
     (case callHook (ActionHook (event transition) (to transition)) (action transition) run1 of
        (Some e, run2) \<Rightarrow> (Some e, run2)
      | (None, run2) \<Rightarrow>
     (case states config (to transition) of
        None \<Rightarrow> (Some (''Target state \"'' @ to transition @ ''\" not found''), run2)
      | Some targetState \<Rightarrow>
     (case callValidation (to transition) (validation targetState) run2 of
        (Some e, run3) \<Rightarrow> (Some e, run3)
      | (None, run3) \<Rightarrow>
          callHook (EntryHook (to transition)) (onEntry targetState) run3))))"

text \<open>
  Rounding of an exact integer result to the nearest double, ties to even: an integer
  below \<open>2 ^ 53\<close> is a double; a larger one keeps its 53 leading bits, rounded; a
  result of \<open>2 ^ 1024\<close> or more is \<open>Infinity\<close>.
\<close>

fun bitLength :: "nat \<Rightarrow> nat" where
  "bitLength n = (if n = 0 then 0 else Suc (bitLength (n div 2)))"

declare bitLength.simps [simp del]

definition roundToDouble :: "nat \<Rightarrow> JsNumber" where
  "roundToDouble n =
     (if n < 2 ^ 53 then Num n
      else (let e = bitLength n - 53;
                q = n div 2 ^ e;
                r = n mod 2 ^ e;
                m = (if 2 ^ (e - 1) < r \<or> (r = 2 ^ (e - 1) \<and> odd q) then q + 1 else q)
            in if 2 ^ 1024 \<le> m * 2 ^ e then Infinity else Num (m * 2 ^ e)))"

text \<open>\<open>a * b\<close> for a double \<open>a\<close> that holds a natural, and \<open>Math.pow(2, n)\<close>.\<close>

definition jsTimes :: "nat \<Rightarrow> JsNumber \<Rightarrow> JsNumber" where
  "jsTimes a b =
     (case b of
        Num n \<Rightarrow> roundToDouble (a * n)
      | Infinity \<Rightarrow> if a = 0 then NaN else Infinity
      | NaN \<Rightarrow> NaN)"

definition mathPow2 :: "nat \<Rightarrow> JsNumber" where
  "mathPow2 n = (if n \<le> 1023 then Num (2 ^ n) else Infinity)"

definition backoffDelay :: "BackoffStrategy \<Rightarrow> nat \<Rightarrow> nat \<Rightarrow> JsNumber" where
  "backoffDelay strategy delay attempt =
     (if strategy = Exponential then jsTimes delay (mathPow2 attempt)
      else jsTimes delay (roundToDouble (attempt + 1)))"

text \<open>
  The \<open>for\<close> loop over \<open>attempt\<close>. The result tells whether the loop was left by the
  \<open>return\<close> of a successful attempt, and carries \<open>lastError\<close>.
\<close>

function retryLoop ::
  "'v StateMachineConfig \<Rightarrow> 'v StateNode \<Rightarrow> string \<Rightarrow> 'v Transition \<Rightarrow> nat \<Rightarrow> BackoffStrategy \<Rightarrow> nat
     \<Rightarrow> nat \<Rightarrow> string option \<Rightarrow> 'v Run \<Rightarrow> bool \<times> string option \<times> 'v Run" where
  "retryLoop config state currentState transition maxA strategy delay attempt lastError run =
     (if attempt \<le> maxA then
        (case runAttempt config state currentState transition run of
           (None, run') \<Rightarrow> (True, lastError, run')
         | (Some e, run') \<Rightarrow>
             retryLoop config state currentState transition maxA strategy delay (attempt + 1) (Some e)
               (if attempt < maxA
                then (fst run', snd run' @ [Delay (backoffDelay strategy delay attempt)])
                else run'))
      else (False, lastError, run))"
  by pat_completeness auto
termination
  by (relation "measure (\<lambda>(config, state, currentState, transition, maxA, strategy, delay, attempt, lastError, run).
        Suc maxA - attempt)") auto

declare retryLoop.simps [simp del]

definition failure :: "string \<Rightarrow> string \<Rightarrow> string \<Rightarrow> TransitionResult" where
  "failure currentState ev message =
     \<lparr>success = False, fromState = Single currentState, toState = Single currentState,
      result_event = ev, error = Some message\<rparr>"

text \<open>The defaults of the retry policy: \<open>x || d\<close> takes \<open>d\<close> when \<open>x\<close> is absent or \<open>0\<close>.\<close>

definition retryDefaults :: "'v Transition \<Rightarrow> nat \<times> BackoffStrategy \<times> nat" where
  "retryDefaults transition =
     (let retryConfig = (case retry transition of
                           None \<Rightarrow> \<lparr>maxAttempts = None, backoff = None, delayMs = None\<rparr>
                         | Some r \<Rightarrow> r)
      in ((case maxAttempts retryConfig of None \<Rightarrow> 0 | Some n \<Rightarrow> n),
          (case backoff retryConfig of None \<Rightarrow> Linear | Some b \<Rightarrow> b),
          (case delayMs retryConfig of None \<Rightarrow> 1000 | Some d \<Rightarrow> if d = 0 then 1000 else d)))"

text \<open>
  The code after the loop: the error handler of the definition is called with the last
  error, what it raises is dropped, and the failure carries the last error.
\<close>

definition retriesExhausted ::
  "'v StateMachineConfig \<Rightarrow> string \<Rightarrow> string \<Rightarrow> string option \<Rightarrow> 'v Run \<Rightarrow> TransitionResult \<times> 'v Run" where
  "retriesExhausted config currentState ev lastError run =
     (let err = (case lastError of None \<Rightarrow> ''Unknown error during transition'' | Some e \<Rightarrow> e)
      in (failure currentState ev err,
          (case onError config of
             None \<Rightarrow> run
           | Some handler \<Rightarrow>
               (case handler err (fst run) of (c', raised) \<Rightarrow> (c', snd run @ [ErrorHandler err])))))"

definition executeTransition ::
  "'v StateMachineConfig \<Rightarrow> string \<Rightarrow> string \<Rightarrow> 'v Run \<Rightarrow> TransitionResult \<times> 'v Run" where
  "executeTransition config currentState ev run =
     (case states config currentState of
        None \<Rightarrow> (failure currentState ev (''State \"'' @ currentState @ ''\" not found''), run)
      | Some state \<Rightarrow>
     (case findTransition config currentState ev (fst run) of
        None \<Rightarrow>
          (failure currentState ev
             (''No valid transition for event \"'' @ ev @ ''\" from state \"'' @ currentState @ ''\"''), run)
      | Some transition \<Rightarrow>
     (case retryDefaults transition of (maxA, strategy, delay) \<Rightarrow>
     (case retryLoop config state currentState transition maxA strategy delay 0 None run of
        (True, lastError, run') \<Rightarrow>
          (\<lparr>success = True, fromState = Single currentState,
            toState = Single (to transition), result_event = ev, error = None\<rparr>, run')
      | (False, lastError, run') \<Rightarrow> retriesExhausted config currentState ev lastError run'))))"

definition isFinalState :: "'v StateMachineConfig \<Rightarrow> string \<Rightarrow> bool" where
  "isFinalState config stateName =
     (case states config stateName of
        None \<Rightarrow> False
      | Some state \<Rightarrow>
          if node_type state = Some Final then True
          else if isAtomicState state \<or> isCompoundState state then isFinal state = Some True
          else False)"

section \<open>Flow state and in-memory storage (storage.ts)\<close>

datatype FlowStatus = Active | Completed | Failed | Paused | Compensating

record FlowError =
  message :: string
  error_state :: StateRef
  error_timestamp :: nat

record HistoryEntry =
  history_from :: StateRef
  history_to :: StateRef
  history_timestamp :: nat
  history_event :: "string option"

record 'v CompensationRecord =
  comp_state :: string
  comp_action :: "'v TransitionAction"
  comp_timestamp :: nat
  description :: "string option"

text \<open>
  A flow instance. The fields \<open>context\<close>, \<open>history\<close> and \<open>compensations\<close> hold objects;
  their types are parameters, so that the same storage code can be read by value (the
  field is the object's content) and by reference (the field is the object's address
  in a heap). \<open>subFlows\<close> and \<open>templateParams\<close> are not read by the operations below
  and are left out; the region array of \<open>currentState\<close> is kept by value. An absent
  \<open>compensations\<close> field is the empty stack: every reader treats the two alike.
\<close>

record ('c, 'h, 'k) FlowState =
  flowId :: string
  flowDefinitionId :: string
  version :: "string option"
  currentState :: StateRef
  flow_context :: 'c
  createdAt :: nat
  updatedAt :: nat
  history :: 'h
  status :: FlowStatus
  flow_error :: "FlowError option"
  compensations :: 'k
  parentFlowId :: "string option"

text \<open>
  The two JavaScript \<open>Map\<close>s are association lists in insertion order; \<open>Map.set\<close>
  replaces the value of a present key in place and appends an absent one.
\<close>

record ('c, 'h, 'k) InMemoryStateStorage =
  stored_states :: "(string \<times> ('c, 'h, 'k) FlowState) list"
  idempotencyKeys :: "(string \<times> string) list"

definition emptyStorage :: "('c, 'h, 'k) InMemoryStateStorage" where
  "emptyStorage = \<lparr>stored_states = [], idempotencyKeys = []\<rparr>"

text \<open>
  \<open>{ ...state }\<close> makes a new object with the same field values: the copy of a field
  that holds an object is the same object.
\<close>

definition save ::
  "('c, 'h, 'k) FlowState \<Rightarrow> ('c, 'h, 'k) InMemoryStateStorage \<Rightarrow> ('c, 'h, 'k) InMemoryStateStorage" where
  "save state st = st\<lparr>stored_states := AList.update (flowId state) state (stored_states st)\<rparr>"

definition get :: "('c, 'h, 'k) InMemoryStateStorage \<Rightarrow> string \<Rightarrow> ('c, 'h, 'k) FlowState option" where
  "get st fid = map_of (stored_states st) fid"

definition delete_flow ::
  "string \<Rightarrow> ('c, 'h, 'k) InMemoryStateStorage \<Rightarrow> ('c, 'h, 'k) InMemoryStateStorage" where
  "delete_flow fid st = st\<lparr>stored_states := AList.delete fid (stored_states st)\<rparr>"

definition exists_flow :: "('c, 'h, 'k) InMemoryStateStorage \<Rightarrow> string \<Rightarrow> bool" where
  "exists_flow st fid = (map_of (stored_states st) fid \<noteq> None)"

record FlowFilter =
  filter_status :: "FlowStatus option"
  filter_flowDefinitionId :: "string option"
  filter_version :: "string option"
  filter_parentFlowId :: "string option"
  filter_currentState :: "StateRef option"

text \<open>
  \<open>list\<close>: the status, definition and version filters apply when the field is truthy
  (present and, for the strings, not empty); the parent and current-state filters
  apply when the field is not \<open>undefined\<close>.
\<close>

definition list_flows ::
  "('c, 'h, 'k) InMemoryStateStorage \<Rightarrow> FlowFilter option \<Rightarrow> ('c, 'h, 'k) FlowState list" where
  "list_flows st flt =
     (let states0 = map snd (stored_states st)
      in case flt of
           None \<Rightarrow> states0
         | Some f \<Rightarrow>
             (let states1 = (case filter_status f of
                               Some wanted \<Rightarrow> filter (\<lambda>s. status s = wanted) states0
                             | None \<Rightarrow> states0);
                  states2 = (case filter_flowDefinitionId f of
                               Some wanted \<Rightarrow>
                                 if wanted \<noteq> [] then filter (\<lambda>s. flowDefinitionId s = wanted) states1
                                 else states1
                             | None \<Rightarrow> states1);
                  states3 = (case filter_version f of
                               Some wanted \<Rightarrow>
                                 if wanted \<noteq> [] then filter (\<lambda>s. version s = Some wanted) states2
                                 else states2
                             | None \<Rightarrow> states2);
                  states4 = (case filter_parentFlowId f of
                               Some wanted \<Rightarrow> filter (\<lambda>s. parentFlowId s = Some wanted) states3
                             | None \<Rightarrow> states3)
              in (case filter_currentState f of
                    Some targetState \<Rightarrow>
                      filter (\<lambda>s.
                        (case currentState s of
                           Regions active \<Rightarrow>
                             (case targetState of
                                Regions targets \<Rightarrow> list_all (\<lambda>t. t \<in> set active) targets
                              | Single target \<Rightarrow> target \<in> set active)
                         | Single current \<Rightarrow>
                             (case targetState of
                                Regions targets \<Rightarrow> current \<in> set targets
                              | Single target \<Rightarrow> current = target))) states4
                  | None \<Rightarrow> states4)))"

definition hasIdempotencyKey :: "('c, 'h, 'k) InMemoryStateStorage \<Rightarrow> string \<Rightarrow> bool" where
  "hasIdempotencyKey st key = (map_of (idempotencyKeys st) key \<noteq> None)"

definition saveIdempotencyKey ::
  "string \<Rightarrow> string \<Rightarrow> ('c, 'h, 'k) InMemoryStateStorage \<Rightarrow> ('c, 'h, 'k) InMemoryStateStorage" where
  "saveIdempotencyKey key fid st = st\<lparr>idempotencyKeys := AList.update key fid (idempotencyKeys st)\<rparr>"

text \<open>\<open>this.idempotencyKeys.get(key) || null\<close>: an empty flow id reads as no binding.\<close>

definition getFlowIdByIdempotencyKey :: "('c, 'h, 'k) InMemoryStateStorage \<Rightarrow> string \<Rightarrow> string option" where
  "getFlowIdByIdempotencyKey st key =
     (case map_of (idempotencyKeys st) key of
        None \<Rightarrow> None
      | Some fid \<Rightarrow> if fid = [] then None else Some fid)"

subsection \<open>Stored flows by reference\<close>

text \<open>
  Read by reference, the three object fields of a flow are addresses into a heap of
  objects. What a reader of a snapshot sees through its fields is the snapshot with
  the addresses resolved in the current heap.
\<close>

type_synonym addr = nat

datatype 'v HeapObject =
    ContextObject "'v Context"
  | HistoryObject "HistoryEntry list"
  | CompensationsObject "'v CompensationRecord list"

type_synonym 'v Heap = "addr \<rightharpoonup> 'v HeapObject"

type_synonym FlowStateRef = "(addr, addr, addr) FlowState"

definition resolve ::
  "'v Heap \<Rightarrow> FlowStateRef \<Rightarrow> ('v HeapObject option, 'v HeapObject option, 'v HeapObject option) FlowState" where
  "resolve heap s =
     \<lparr>flowId = flowId s, flowDefinitionId = flowDefinitionId s, version = version s,
      currentState = currentState s, flow_context = heap (flow_context s),
      createdAt = createdAt s, updatedAt = updatedAt s, history = heap (history s),
      status = status s, flow_error = flow_error s, compensations = heap (compensations s),
      parentFlowId = parentFlowId s\<rparr>"

text \<open>The assignment \<open>snapshot.context[key] = value\<close>, a write into the context object.\<close>

definition setContextKey :: "FlowStateRef \<Rightarrow> string \<Rightarrow> 'v \<Rightarrow> 'v Heap \<Rightarrow> 'v Heap" where
  "setContextKey snapshot key val heap =
     (case heap (flow_context snapshot) of
        Some (ContextObject c) \<Rightarrow> heap(flow_context snapshot \<mapsto> ContextObject (c(key \<mapsto> val)))
      | _ \<Rightarrow> heap)"

text \<open>The call \<open>snapshot.history.push(entry)\<close>, a write into the history array.\<close>

definition pushHistory :: "FlowStateRef \<Rightarrow> HistoryEntry \<Rightarrow> 'v Heap \<Rightarrow> 'v Heap" where
  "pushHistory snapshot entry heap =
     (case heap (history snapshot) of
        Some (HistoryObject h) \<Rightarrow> heap(history snapshot \<mapsto> HistoryObject (h @ [entry]))
      | _ \<Rightarrow> heap)"

section \<open>Flow engine (flow-engine.ts)\<close>

text \<open>
  The engine is read by value: a flow's context, history and compensation stack are
  the contents of the objects, and the storage is the in-memory reference
  implementation. Each operation that changes a flow object saves it as its last step,
  so that the stored flow and the flow object agree when the operation returns. Every
  operation reads the clock once, as the argument \<open>now\<close>. An operation that throws
  returns \<open>Inl\<close> with the message of the error. Hooks and compensation actions act on
  the context only; sub-flows and \<open>start\<close> are not part of the model.
\<close>

type_synonym 'v Flow = "('v Context, HistoryEntry list, 'v CompensationRecord list) FlowState"

type_synonym 'v Storage =
  "('v Context, HistoryEntry list, 'v CompensationRecord list) InMemoryStateStorage"

text \<open>
  The world an operation runs in: the storage, the trace of calls made so far, and the
  order in which the runtime will resume the regions of the broadcasts to come (see
  the parallel dispatch below). The program cannot read the schedule.
\<close>

record 'v World =
  storage :: "'v Storage"
  trace :: "Effect list"
  schedule :: "nat list"

record 'v FlowExecuteOptions =
  opt_event :: string
  data :: "'v Context option"
  targetRegion :: "string option"
  idempotencyKey :: "string option"

record 'v FlowExecutionResult =
  exec_success :: bool
  exec_state :: "'v Flow"
  exec_transition :: TransitionResult
  compensated :: "bool option"

type_synonym 'v Step = "'v World \<Rightarrow> (string + 'v FlowExecutionResult) \<times> 'v World"

record 'v MiddlewareContext =
  mw_flowId :: string
  mw_event :: string
  mw_flowState :: "'v Flow"
  mw_options :: "'v FlowExecuteOptions"
  startTime :: nat

text \<open>
  A middleware receives its context and \<open>next\<close> and is itself a step on the world; it
  may call \<open>next\<close>, change what it returns, or throw.
\<close>

type_synonym 'v Middleware = "'v MiddlewareContext \<Rightarrow> 'v Step \<Rightarrow> 'v Step"

record 'v FlowEngine =
  engine_config :: "'v StateMachineConfig"
  middlewares :: "'v Middleware list"

definition statusName :: "FlowStatus \<Rightarrow> string" where
  "statusName s =
     (case s of Active \<Rightarrow> ''active'' | Completed \<Rightarrow> ''completed'' | Failed \<Rightarrow> ''failed''
      | Paused \<Rightarrow> ''paused'' | Compensating \<Rightarrow> ''compensating'')"

definition notFound :: "string \<Rightarrow> string" where
  "notFound fid = ''Flow with ID \"'' @ fid @ ''\" not found''"

definition isFlowComplete :: "'v StateMachineConfig \<Rightarrow> ('c, 'h, 'k) FlowState \<Rightarrow> bool" where
  "isFlowComplete config flowState =
     (case currentState flowState of
        Regions rs \<Rightarrow> list_all (isFinalState config) rs
      | Single s \<Rightarrow> isFinalState config s)"

subsection \<open>Compensation\<close>

fun joinComma :: "string list \<Rightarrow> string" where
  "joinComma [] = []"
| "joinComma [s] = s"
| "joinComma (s # ss) = s @ '','' @ joinComma ss"

definition recordCompensation ::
  "string \<Rightarrow> 'v TransitionAction \<Rightarrow> string option \<Rightarrow> nat \<Rightarrow> 'v World \<Rightarrow> (string + unit) \<times> 'v World" where
  "recordCompensation fid act descr now w =
     (case get (storage w) fid of
        None \<Rightarrow> (Inl (notFound fid), w)
      | Some flowState \<Rightarrow>
          (Inr (),
           w\<lparr>storage := save
                (flowState\<lparr>compensations := compensations flowState @
                   [\<lparr>comp_state = (case currentState flowState of
                                     Regions rs \<Rightarrow> joinComma rs
                                   | Single s \<Rightarrow> s),
                     comp_action = act, comp_timestamp = now, description = descr\<rparr>]\<rparr>)
                (storage w)\<rparr>))"

text \<open>
  The loop of \<open>compensate\<close> over the reversed copy of the stack. What an action raises
  is caught and logged to the console; the loop goes on with the context the action
  left.
\<close>

fun runCompensations :: "'v CompensationRecord list \<Rightarrow> 'v Run \<Rightarrow> 'v Run" where
  "runCompensations [] run = run"
| "runCompensations (entry # entries) run =
     (case comp_action entry (fst run) of
        (c', raised) \<Rightarrow>
          runCompensations entries
            (c', snd run @ [CompensationHook (comp_state entry) (description entry)]))"

text \<open>
  \<open>compensate\<close> returns \<open>didCompensate\<close> and the changed flow object. The outer \<open>catch\<close>
  of the source cannot be reached: inside its \<open>try\<close> only the actions can throw, and
  they are called inside the inner \<open>try\<close>.
\<close>

definition compensate :: "'v Flow \<Rightarrow> string \<Rightarrow> nat \<Rightarrow> 'v World \<Rightarrow> bool \<times> 'v Flow \<times> 'v World" where
  "compensate flowState reason now w =
     (if compensations flowState = [] then
        (False,
         flowState\<lparr>status := Failed,
                    flow_error := Some \<lparr>message = reason,
                                        error_state = currentState flowState,
                                        error_timestamp = now\<rparr>\<rparr>,
         w)
      else
        (let flowState1 = flowState\<lparr>status := Compensating\<rparr>;
             w1 = w\<lparr>storage := save flowState1 (storage w)\<rparr>;
             run' = runCompensations (rev (compensations flowState1)) (flow_context flowState1, trace w1)
         in (True,
             flowState1\<lparr>flow_context := fst run', status := Failed,
                         flow_error := Some \<lparr>message = reason @ '' (compensated)'',
                                             error_state = currentState flowState1,
                                             error_timestamp = now\<rparr>\<rparr>,
             w1\<lparr>trace := snd run'\<rparr>)))"

subsection \<open>Parallel dispatch\<close>

text \<open>
  \<open>parseInt(s, 10)\<close>: leading white space, an optional sign, then the longest run of
  decimal digits; \<open>NaN\<close> (here \<open>None\<close>) when there is no digit. White space is the ASCII
  part of what JavaScript skips.
\<close>

definition isWhiteSpace :: "char \<Rightarrow> bool" where
  "isWhiteSpace ch = (ch \<in> set [CHR '' '', CHR 0x09, CHR 0x0A, CHR 0x0B, CHR 0x0C, CHR 0x0D])"

definition isDigit :: "char \<Rightarrow> bool" where
  "isDigit ch = (ch \<in> set ''0123456789'')"

definition digitsValue :: "string \<Rightarrow> nat" where
  "digitsValue ds = foldl (\<lambda>acc ch. 10 * acc + (of_char ch - 48)) 0 ds"

definition parseInt :: "string \<Rightarrow> int option" where
  "parseInt s =
     (let s1 = dropWhile isWhiteSpace s;
          negative = (case s1 of ch # rest \<Rightarrow> ch = CHR ''-'' | [] \<Rightarrow> False);
          s2 = (case s1 of ch # rest \<Rightarrow> if ch = CHR ''-'' \<or> ch = CHR ''+'' then rest else s1 | [] \<Rightarrow> s1);
          ds = takeWhile isDigit s2
      in if ds = [] then None
         else Some (if negative then - int (digitsValue ds) else int (digitsValue ds)))"

text \<open>
  The broadcast calls \<open>executeTransition\<close> for every region and awaits them with
  \<open>Promise.all\<close>. Each call runs until its next \<open>await\<close> and is resumed later, so the
  guards and hooks of different regions interleave on the shared context. A call is
  therefore cut into steps, each with at most one guard or hook call; the place a
  region has reached is its program counter:
  \<^item> \<open>Searching\<close>: in the loop of \<open>findTransition\<close>, with the candidates still to examine;
  \<^item> \<open>LoopHead\<close>: at the test of the retry loop, with the transition found, the
    attempt number and \<open>lastError\<close>; the step runs the exit hook of the state, which is
    looked up again there (the call has it in a local variable, and the lookup that
    filled it succeeded);
  \<^item> \<open>AfterExit\<close>, \<open>AfterAction\<close>, \<open>AfterValidation\<close>: inside the \<open>try\<close> block, before the
    transition action, the validation of the target, and the entry hook;
  \<^item> \<open>Caught\<close>: in the \<open>catch\<close> block, with the error caught;
  \<^item> \<open>Exhausted\<close>: after the loop, before the error handler;
  \<^item> \<open>Finished\<close>: returned, with the result.
  Hooks run to completion: a hook that itself awaits between two writes to the
  context is outside the model.
\<close>

datatype 'v RegionPc =
    Searching "'v Transition list"
  | LoopHead "'v Transition" nat "string option"
  | AfterExit "'v Transition" nat "string option"
  | AfterAction "'v Transition" nat "string option"
  | AfterValidation "'v Transition" nat "string option"
  | Caught "'v Transition" nat string
  | Exhausted "string option"
  | Finished TransitionResult

definition initialPc :: "'v StateMachineConfig \<Rightarrow> string \<Rightarrow> string \<Rightarrow> 'v RegionPc" where
  "initialPc config cur ev =
     (case states config cur of
        None \<Rightarrow> Finished (failure cur ev (''State \"'' @ cur @ ''\" not found''))
      | Some state \<Rightarrow> Searching (getTransitions config cur))"

definition finished :: "'v RegionPc \<Rightarrow> bool" where
  "finished pc = (case pc of Finished r \<Rightarrow> True | _ \<Rightarrow> False)"

text \<open>One step of the call of \<open>executeTransition\<close> for the region in state \<open>cur\<close>.\<close>

fun regionStep ::
  "'v StateMachineConfig \<Rightarrow> string \<Rightarrow> string \<Rightarrow> 'v RegionPc \<Rightarrow> 'v Run \<Rightarrow> 'v RegionPc \<times> 'v Run" where
  "regionStep config cur ev (Searching []) run =
     (Finished (failure cur ev
        (''No valid transition for event \"'' @ ev @ ''\" from state \"'' @ cur @ ''\"'')), run)"
| "regionStep config cur ev (Searching (t # ts)) run =
     (if event t = ev then
        (case guard t of
           Some g \<Rightarrow>
             (case g (fst run) of
                Allowed allowed \<Rightarrow> if allowed then (LoopHead t 0 None, run) else (Searching ts, run)
              | GuardThrew \<Rightarrow> (Searching ts, run))
         | None \<Rightarrow> (LoopHead t 0 None, run))
      else (Searching ts, run))"
| "regionStep config cur ev (LoopHead t attempt lastError) run =
     (case states config cur of
        None \<Rightarrow> (Finished (failure cur ev (''State \"'' @ cur @ ''\" not found'')), run)
      | Some state \<Rightarrow>
          if attempt \<le> fst (retryDefaults t) then
            (case callHook (ExitHook cur) (onExit state) run of
               (Some e, run1) \<Rightarrow> (Caught t attempt e, run1)
             | (None, run1) \<Rightarrow> (AfterExit t attempt lastError, run1))
          else (Exhausted lastError, run))"
| "regionStep config cur ev (AfterExit t attempt lastError) run =
     (case callHook (ActionHook (event t) (to t)) (action t) run of
        (Some e, run2) \<Rightarrow> (Caught t attempt e, run2)
      | (None, run2) \<Rightarrow> (AfterAction t attempt lastError, run2))"
| "regionStep config cur ev (AfterAction t attempt lastError) run =
     (case states config (to t) of
        None \<Rightarrow> (Caught t attempt (''Target state \"'' @ to t @ ''\" not found''), run)
      | Some targetState \<Rightarrow>
          (case callValidation (to t) (validation targetState) run of
             (Some e, run3) \<Rightarrow> (Caught t attempt e, run3)
           | (None, run3) \<Rightarrow> (AfterValidation t attempt lastError, run3)))"
| "regionStep config cur ev (AfterValidation t attempt lastError) run =
     (case states config (to t) of
        None \<Rightarrow> (Caught t attempt (''Target state \"'' @ to t @ ''\" not found''), run)
      | Some targetState \<Rightarrow>
          (case callHook (EntryHook (to t)) (onEntry targetState) run of
             (Some e, run4) \<Rightarrow> (Caught t attempt e, run4)
           | (None, run4) \<Rightarrow>
               (Finished \<lparr>success = True, fromState = Single cur, toState = Single (to t),
                           result_event = ev, error = None\<rparr>, run4)))"
| "regionStep config cur ev (Caught t attempt e) run =
     (case retryDefaults t of
        (maxA, strategy, delay) \<Rightarrow>
          if attempt < maxA
          then (LoopHead t (attempt + 1) (Some e),
                (fst run, snd run @ [Delay (backoffDelay strategy delay attempt)]))
          else (Exhausted (Some e), run))"
| "regionStep config cur ev (Exhausted lastError) run =
     (case retriesExhausted config cur ev lastError run of
        (r, run') \<Rightarrow> (Finished r, run'))"
| "regionStep config cur ev (Finished r) run = (Finished r, run)"

text \<open>
  One step of the broadcast: a region that has not returned is resumed for one step,
  on the context and the trace the step before it left.
\<close>

inductive regionsStep ::
  "'v StateMachineConfig \<Rightarrow> string list \<Rightarrow> string
     \<Rightarrow> 'v RegionPc list \<times> 'v Run \<Rightarrow> 'v RegionPc list \<times> 'v Run \<Rightarrow> bool"
  for config regions ev where
  resume: "i < length pcs \<Longrightarrow> i < length regions \<Longrightarrow> \<not> finished (pcs ! i) \<Longrightarrow>
           regionStep config (regions ! i) ev (pcs ! i) run = (pc', run') \<Longrightarrow>
           regionsStep config regions ev (pcs, run) (pcs[i := pc'], run')"

text \<open>
  The shape of the result of a region in state \<open>cur\<close>: a success leads to the target of
  one of the candidate transitions of \<open>cur\<close> for the event, a failure stays in \<open>cur\<close> and
  carries an error. \<open>pcInv\<close> is what holds of a program counter on the way there.
\<close>

definition regionResult :: "'v StateMachineConfig \<Rightarrow> string \<Rightarrow> string \<Rightarrow> TransitionResult \<Rightarrow> bool" where
  "regionResult config cur ev r \<longleftrightarrow>
     fromState r = Single cur \<and> result_event r = ev \<and>
     (if success r
      then error r = None \<and>
           (\<exists>t\<in>set (getTransitions config cur). event t = ev \<and> toState r = Single (to t))
      else toState r = Single cur \<and> error r \<noteq> None)"

definition pcInv :: "'v StateMachineConfig \<Rightarrow> string \<Rightarrow> string \<Rightarrow> 'v RegionPc \<Rightarrow> bool" where
  "pcInv config cur ev pc =
     (let candidate = (\<lambda>t. t \<in> set (getTransitions config cur) \<and> event t = ev)
      in case pc of
           Searching ts \<Rightarrow> set ts \<subseteq> set (getTransitions config cur)
         | LoopHead t attempt lastError \<Rightarrow> candidate t
         | AfterExit t attempt lastError \<Rightarrow> candidate t
         | AfterAction t attempt lastError \<Rightarrow> candidate t
         | AfterValidation t attempt lastError \<Rightarrow> candidate t
         | Caught t attempt e \<Rightarrow> candidate t
         | Exhausted lastError \<Rightarrow> True
         | Finished r \<Rightarrow> regionResult config cur ev r)"

text \<open>
  The steps left to a region, as a lexicographic measure: the phase, then the
  candidates or attempts left, then the place inside the attempt.
\<close>

definition pcPhase :: "'v RegionPc \<Rightarrow> nat" where
  "pcPhase pc =
     (case pc of Searching ts \<Rightarrow> 3 | Exhausted lastError \<Rightarrow> 1 | Finished r \<Rightarrow> 0 | _ \<Rightarrow> 2)"

definition pcRemaining :: "'v RegionPc \<Rightarrow> nat" where
  "pcRemaining pc =
     (case pc of
        Searching ts \<Rightarrow> length ts
      | LoopHead t attempt lastError \<Rightarrow> fst (retryDefaults t) - attempt
      | AfterExit t attempt lastError \<Rightarrow> fst (retryDefaults t) - attempt
      | AfterAction t attempt lastError \<Rightarrow> fst (retryDefaults t) - attempt
      | AfterValidation t attempt lastError \<Rightarrow> fst (retryDefaults t) - attempt
      | Caught t attempt e \<Rightarrow> fst (retryDefaults t) - attempt
      | _ \<Rightarrow> 0)"

definition pcStage :: "'v RegionPc \<Rightarrow> nat" where
  "pcStage pc =
     (case pc of
        LoopHead t attempt lastError \<Rightarrow> 4
      | AfterExit t attempt lastError \<Rightarrow> 3
      | AfterAction t attempt lastError \<Rightarrow> 2
      | AfterValidation t attempt lastError \<Rightarrow> 1
      | _ \<Rightarrow> 0)"

text \<open>A region resumed again and again, with no other region in between, until it returns.\<close>

function runToDone ::
  "'v StateMachineConfig \<Rightarrow> string \<Rightarrow> string \<Rightarrow> 'v RegionPc \<Rightarrow> 'v Run \<Rightarrow> 'v RegionPc \<times> 'v Run" where
  "runToDone config cur ev pc run =
     (if finished pc then (pc, run)
      else (case regionStep config cur ev pc run of
              (pc', run') \<Rightarrow> runToDone config cur ev pc' run'))"
  by pat_completeness auto
termination
proof (relation "inv_image (measures [pcPhase, pcRemaining, pcStage]) (\<lambda>(config, cur, ev, pc, run). pc)")
  show "wf (inv_image (measures [pcPhase, pcRemaining, pcStage])
          (\<lambda>(config, cur, ev, pc, run). pc))"
    by simp
next
  fix config :: "'v StateMachineConfig" and cur ev :: string and pc pc' :: "'v RegionPc"
    and run run' :: "'v Run"
  assume nf: "\<not> finished pc" and st: "(pc', run') = regionStep config cur ev pc run"
  from st have step: "regionStep config cur ev pc run = (pc', run')" by simp
  have "(pc', pc) \<in> measures [pcPhase, pcRemaining, pcStage]"
  proof (cases pc)
    case (Searching ts)
    with step show ?thesis
      by (cases ts)
         (auto simp: pcPhase_def pcRemaining_def pcStage_def
               split: if_splits option.splits GuardOutcome.splits)
  next
    case (LoopHead t attempt lastError)
    with step show ?thesis
      by (auto simp: pcPhase_def pcRemaining_def pcStage_def
               split: if_splits option.splits prod.splits)
  next
    case (AfterExit t attempt lastError)
    with step show ?thesis
      by (auto simp: pcPhase_def pcRemaining_def pcStage_def split: option.splits prod.splits)
  next
    case (AfterAction t attempt lastError)
    with step show ?thesis
      by (auto simp: pcPhase_def pcRemaining_def pcStage_def split: option.splits prod.splits)
  next
    case (AfterValidation t attempt lastError)
    with step show ?thesis
      by (auto simp: pcPhase_def pcRemaining_def pcStage_def split: option.splits prod.splits)
  next
    case (Caught t attempt e)
    with step show ?thesis
      by (auto simp: pcPhase_def pcRemaining_def pcStage_def split: if_splits prod.splits)
  next
    case (Exhausted lastError)
    with step show ?thesis
      by (auto simp: pcPhase_def pcRemaining_def pcStage_def split: prod.splits)
  next
    case (Finished r)
    with nf show ?thesis by (simp add: finished_def)
  qed
  then show "((config, cur, ev, pc', run'), (config, cur, ev, pc, run))
          \<in> inv_image (measures [pcPhase, pcRemaining, pcStage])
               (\<lambda>(config, cur, ev, pc, run). pc)"
    by simp
qed

declare runToDone.simps [simp del]

text \<open>
  The runtime resumes the regions in an order the program does not control; the
  schedule lists the region to resume at each step (an entry that names no region, or
  a region that has returned, changes nothing). The entries are used until every
  region has returned; when the schedule ends first, the regions still running are
  resumed to their end in index order. The runtime's own order is one such schedule.
\<close>

fun runSchedule ::
  "'v StateMachineConfig \<Rightarrow> string list \<Rightarrow> string \<Rightarrow> nat list \<Rightarrow> 'v RegionPc list \<Rightarrow> 'v Run
     \<Rightarrow> 'v RegionPc list \<times> 'v Run \<times> nat list" where
  "runSchedule config regions ev [] pcs run = (pcs, run, [])"
| "runSchedule config regions ev (i # sched) pcs run =
     (if list_all finished pcs then (pcs, run, i # sched)
      else if i < length pcs \<and> i < length regions then
        (case regionStep config (regions ! i) ev (pcs ! i) run of
           (pc', run') \<Rightarrow> runSchedule config regions ev sched (pcs[i := pc']) run')
      else runSchedule config regions ev sched pcs run)"

function finishRegions ::
  "'v StateMachineConfig \<Rightarrow> string list \<Rightarrow> string \<Rightarrow> nat \<Rightarrow> 'v RegionPc list \<Rightarrow> 'v Run
     \<Rightarrow> 'v RegionPc list \<times> 'v Run" where
  "finishRegions config regions ev i pcs run =
     (if i < length pcs \<and> i < length regions then
        (case runToDone config (regions ! i) ev (pcs ! i) run of
           (pc', run') \<Rightarrow> finishRegions config regions ev (Suc i) (pcs[i := pc']) run')
      else (pcs, run))"
  by pat_completeness auto
termination
  by (relation "measure (\<lambda>(config, regions, ev, i, pcs, run). length pcs - i)") auto

declare finishRegions.simps [simp del]

text \<open>
  What \<open>Promise.all\<close> resolves to: the result of every region, in region order. A call
  that has not returned has no result; this does not happen, and neither does the
  \<open>null\<close> that the \<open>catch\<close> on each call would produce, since \<open>executeTransition\<close> never
  rejects.
\<close>

definition outcome :: "'v RegionPc \<Rightarrow> TransitionResult option" where
  "outcome pc = (case pc of Finished r \<Rightarrow> Some r | _ \<Rightarrow> None)"

definition runRegions ::
  "'v StateMachineConfig \<Rightarrow> string list \<Rightarrow> string \<Rightarrow> nat list \<Rightarrow> 'v Run
     \<Rightarrow> TransitionResult option list \<times> 'v Run \<times> nat list" where
  "runRegions config regions ev sched run =
     (case runSchedule config regions ev sched (map (\<lambda>cur. initialPc config cur ev) regions) run of
        (pcs, run1, sched') \<Rightarrow>
          (case finishRegions config regions ev 0 pcs run1 of
             (pcs', run2) \<Rightarrow> (map outcome pcs', run2, sched')))"

text \<open>\<open>t?.success\<close> for an entry of the result list.\<close>

definition succeeded :: "TransitionResult option \<Rightarrow> bool" where
  "succeeded t = (case t of None \<Rightarrow> False | Some r \<Rightarrow> success r)"

text \<open>
  The \<open>map\<close> that builds \<open>newStates\<close>: the target of a region whose transition
  succeeded, the old entry otherwise; \<open>None\<close> when it throws because a target is a list.
\<close>

fun mergeRegions :: "string list \<Rightarrow> TransitionResult option list \<Rightarrow> string list option" where
  "mergeRegions [] ts = Some []"
| "mergeRegions (s # ss) [] = map_option (Cons s) (mergeRegions ss [])"
| "mergeRegions (s # ss) (t # ts) =
     (case t of
        None \<Rightarrow> map_option (Cons s) (mergeRegions ss ts)
      | Some r \<Rightarrow>
          if success r then
            (case toState r of
               Regions nested \<Rightarrow> None
             | Single target \<Rightarrow> map_option (Cons target) (mergeRegions ss ts))
          else map_option (Cons s) (mergeRegions ss ts))"

definition executeParallelTransition ::
  "'v FlowEngine \<Rightarrow> ('c, 'h, 'k) FlowState \<Rightarrow> 'v FlowExecuteOptions \<Rightarrow> nat list \<Rightarrow> 'v Run
     \<Rightarrow> (string + TransitionResult) \<times> 'v Run \<times> nat list" where
  "executeParallelTransition eng flowState options sched run =
     (case currentState flowState of
        Single s \<Rightarrow> (Inl ''Expected parallel state'', run, sched)
      | Regions regions \<Rightarrow>
     (case targetRegion options of
        Some target \<Rightarrow>
          (case parseInt target of
             None \<Rightarrow> (Inl (''Invalid region index: '' @ target), run, sched)
           | Some regionIndex \<Rightarrow>
               if regionIndex < 0 \<or> int (length regions) \<le> regionIndex
               then (Inl (''Invalid region index: '' @ target), run, sched)
               else
                 (case executeTransition (engine_config eng) (regions ! nat regionIndex)
                         (opt_event options) run of
                    (result, run') \<Rightarrow>
                      if success result then
                        (case toState result of
                           Regions nested \<Rightarrow>
                             (Inl ''Nested parallel states not yet supported'', run', sched)
                         | Single newState \<Rightarrow>
                             (Inr (result\<lparr>fromState := Regions regions,
                                          toState := Regions (regions[nat regionIndex := newState])\<rparr>),
                              run', sched))
                      else (Inr result, run', sched)))
      | None \<Rightarrow>
          (case runRegions (engine_config eng) regions (opt_event options) sched run of
             (results, run', sched') \<Rightarrow>
               if filter succeeded results = [] then
                 (Inr \<lparr>success = False, fromState = Regions regions, toState = Regions regions,
                       result_event = opt_event options,
                       error = Some ''No region accepted the event''\<rparr>, run', sched')
               else
                 (case mergeRegions regions results of
                    None \<Rightarrow> (Inl ''Nested parallel states not yet supported'', run', sched')
                  | Some newStates \<Rightarrow>
                      (Inr \<lparr>success = True, fromState = Regions regions, toState = Regions newStates,
                            result_event = opt_event options, error = None\<rparr>, run', sched')))))"

subsection \<open>Execute\<close>

text \<open>
  The \<open>try\<close> block of \<open>executeCore\<close>. \<open>Inl\<close> is the message of the error it throws,
  together with the flow object as the block left it.
\<close>

definition tryTransition ::
  "'v FlowEngine \<Rightarrow> 'v Flow \<Rightarrow> 'v FlowExecuteOptions \<Rightarrow> nat \<Rightarrow> Effect list \<Rightarrow> nat list
     \<Rightarrow> (string + TransitionResult) \<times> 'v Flow \<times> Effect list \<times> nat list" where
  "tryTransition eng flowState options now tr sched =
     (case (case currentState flowState of
              Regions regions \<Rightarrow>
                executeParallelTransition eng flowState options sched (flow_context flowState, tr)
            | Single s \<Rightarrow>
                (case executeTransition (engine_config eng) s (opt_event options)
                        (flow_context flowState, tr) of
                   (result, run') \<Rightarrow> (Inr result, run', sched))) of
        (Inl thrown, run', sched') \<Rightarrow>
          (Inl thrown, flowState\<lparr>flow_context := fst run'\<rparr>, snd run', sched')
      | (Inr transition, run', sched') \<Rightarrow>
          (let flowState1 = flowState\<lparr>flow_context := fst run', updatedAt := now\<rparr>
           in if success transition then
                (let flowState2 = flowState1
                       \<lparr>history := history flowState1 @
                          [\<lparr>history_from = fromState transition, history_to = toState transition,
                            history_timestamp = now, history_event = Some (opt_event options)\<rparr>],
                        currentState := toState transition\<rparr>
                 in (Inr transition,
                     (if isFlowComplete (engine_config eng) flowState2
                      then flowState2\<lparr>status := Completed\<rparr> else flowState2),
                     snd run', sched'))
              else
                (Inl (case error transition of
                        None \<Rightarrow> ''Transition failed''
                      | Some m \<Rightarrow> if m = [] then ''Transition failed'' else m),
                 flowState1, snd run', sched')))"

definition executeCore :: "'v FlowEngine \<Rightarrow> string \<Rightarrow> 'v FlowExecuteOptions \<Rightarrow> nat \<Rightarrow> 'v Step" where
  "executeCore eng fid options now w =
     (case get (storage w) fid of
        None \<Rightarrow> (Inl (notFound fid), w)
      | Some stored \<Rightarrow>
          if status stored \<noteq> Active
          then (Inl (''Flow is not active. Current status: '' @ statusName (status stored)), w)
          else
            (let flowState = (case data options of
                                None \<Rightarrow> stored
                              | Some d \<Rightarrow> stored\<lparr>flow_context := flow_context stored ++ d\<rparr>)
             in case tryTransition eng flowState options now (trace w) (schedule w) of
                  (Inr transition, flowState', tr', sched') \<Rightarrow>
                    (Inr \<lparr>exec_success = success transition, exec_state = flowState',
                          exec_transition = transition, compensated = Some False\<rparr>,
                     w\<lparr>storage := save flowState' (storage w), trace := tr', schedule := sched'\<rparr>)
                | (Inl thrown, flowState', tr', sched') \<Rightarrow>
                    (case compensate flowState' thrown now (w\<lparr>trace := tr', schedule := sched'\<rparr>) of
                       (didCompensate, flowState'', w') \<Rightarrow>
                         (Inr \<lparr>exec_success = False, exec_state = flowState'',
                               exec_transition =
                                 \<lparr>success = False, fromState = currentState flowState'',
                                  toState = currentState flowState'',
                                  result_event = opt_event options, error = Some thrown\<rparr>,
                               compensated = Some didCompensate\<rparr>,
                          w'\<lparr>storage := save flowState'' (storage w')\<rparr>))))"

text \<open>
  The middleware chain. \<open>dispatch\<close> hands each middleware the rest of the chain as its
  \<open>next\<close>; the core step ends the chain.
\<close>

fun dispatch :: "'v Middleware list \<Rightarrow> 'v MiddlewareContext \<Rightarrow> 'v Step \<Rightarrow> 'v Step" where
  "dispatch [] mc core = core"
| "dispatch (m # ms) mc core = m mc (dispatch ms mc core)"

definition executeWithMiddleware ::
  "'v FlowEngine \<Rightarrow> string \<Rightarrow> 'v FlowExecuteOptions \<Rightarrow> nat \<Rightarrow> 'v Step" where
  "executeWithMiddleware eng fid options now w =
     (case get (storage w) fid of
        None \<Rightarrow> (Inl (notFound fid), w)
      | Some flowState \<Rightarrow>
          dispatch (middlewares eng)
            \<lparr>mw_flowId = fid, mw_event = opt_event options, mw_flowState = flowState,
             mw_options = options, startTime = now\<rparr>
            (executeCore eng fid options now) w)"

text \<open>The result \<open>execute\<close> returns when the idempotency key has been used before.\<close>

definition replayResult :: "'v Flow \<Rightarrow> string \<Rightarrow> 'v FlowExecutionResult" where
  "replayResult flowState ev =
     \<lparr>exec_success = True, exec_state = flowState,
      exec_transition = \<lparr>success = True, fromState = currentState flowState,
                         toState = currentState flowState, result_event = ev, error = None\<rparr>,
      compensated = None\<rparr>"

text \<open>
  The idempotency check at the head of \<open>execute\<close>: the result to return at once, if
  any, and the world after the check. An empty key is falsy and counts as no key.
\<close>

definition checkIdempotencyKey ::
  "string \<Rightarrow> 'v FlowExecuteOptions \<Rightarrow> 'v World \<Rightarrow> 'v FlowExecutionResult option \<times> 'v World" where
  "checkIdempotencyKey fid options w =
     (case idempotencyKey options of
        None \<Rightarrow> (None, w)
      | Some key \<Rightarrow>
          if key = [] then (None, w)
          else
            (case getFlowIdByIdempotencyKey (storage w) key of
               Some existingFlowId \<Rightarrow>
                 (case get (storage w) fid of
                    Some flowState \<Rightarrow> (Some (replayResult flowState (opt_event options)), w)
                  | None \<Rightarrow> (None, w))
             | None \<Rightarrow> (None, w\<lparr>storage := saveIdempotencyKey key fid (storage w)\<rparr>)))"

definition execute :: "'v FlowEngine \<Rightarrow> string \<Rightarrow> 'v FlowExecuteOptions \<Rightarrow> nat \<Rightarrow> 'v Step" where
  "execute eng fid options now w =
     (case checkIdempotencyKey fid options w of
        (Some result, w') \<Rightarrow> (Inr result, w')
      | (None, w') \<Rightarrow>
          if middlewares eng \<noteq> [] then executeWithMiddleware eng fid options now w'
          else executeCore eng fid options now w')"

subsection \<open>Pause, resume, cancel and queries\<close>

definition pause :: "string \<Rightarrow> nat \<Rightarrow> 'v World \<Rightarrow> (string + 'v Flow) \<times> 'v World" where
  "pause fid now w =
     (case get (storage w) fid of
        None \<Rightarrow> (Inl (notFound fid), w)
      | Some flowState \<Rightarrow>
          if status flowState \<noteq> Active
          then (Inl (''Cannot pause flow. Current status: '' @ statusName (status flowState)), w)
          else (let flowState' = flowState\<lparr>status := Paused, updatedAt := now\<rparr>
                in (Inr flowState', w\<lparr>storage := save flowState' (storage w)\<rparr>)))"

definition resume :: "string \<Rightarrow> nat \<Rightarrow> 'v World \<Rightarrow> (string + 'v Flow) \<times> 'v World" where
  "resume fid now w =
     (case get (storage w) fid of
        None \<Rightarrow> (Inl (notFound fid), w)
      | Some flowState \<Rightarrow>
          if status flowState \<noteq> Paused
          then (Inl (''Cannot resume flow. Current status: '' @ statusName (status flowState)), w)
          else (let flowState' = flowState\<lparr>status := Active, updatedAt := now\<rparr>
                in (Inr flowState', w\<lparr>storage := save flowState' (storage w)\<rparr>)))"

definition cancel :: "string \<Rightarrow> bool \<Rightarrow> nat \<Rightarrow> 'v World \<Rightarrow> (string + 'v Flow) \<times> 'v World" where
  "cancel fid triggerCompensation now w =
     (case get (storage w) fid of
        None \<Rightarrow> (Inl (notFound fid), w)
      | Some flowState \<Rightarrow>
          if status flowState = Completed then (Inl ''Cannot cancel completed flow'', w)
          else
            (case (if triggerCompensation
                   then (case compensate flowState ''Flow cancelled by user'' now w of
                           (didCompensate, flowState', w') \<Rightarrow> (flowState', w'))
                   else (flowState\<lparr>status := Failed,
                                    flow_error := Some \<lparr>message = ''Flow cancelled by user'',
                                                        error_state = currentState flowState,
                                                        error_timestamp = now\<rparr>\<rparr>, w)) of
               (flowState', w') \<Rightarrow>
                 (let flowState'' = flowState'\<lparr>updatedAt := now\<rparr>
                  in (Inr flowState'', w'\<lparr>storage := save flowState'' (storage w')\<rparr>))))"

definition listFlows :: "'v World \<Rightarrow> FlowFilter option \<Rightarrow> 'v Flow list" where
  "listFlows w flt = list_flows (storage w) flt"

text \<open>\<open>Set.add\<close> followed by \<open>Array.from\<close>: insertion order, first occurrence kept.\<close>

definition setAdd :: "string list \<Rightarrow> string \<Rightarrow> string list" where
  "setAdd allEvents e = (if e \<in> set allEvents then allEvents else allEvents @ [e])"

definition getPossibleTransitions :: "'v FlowEngine \<Rightarrow> string \<Rightarrow> 'v World \<Rightarrow> string + string list" where
  "getPossibleTransitions eng fid w =
     (case get (storage w) fid of
        None \<Rightarrow> Inl (notFound fid)
      | Some flowState \<Rightarrow>
          (case currentState flowState of
             Regions regions \<Rightarrow>
               Inr (foldl (\<lambda>allEvents s.
                             foldl setAdd allEvents (map event (getTransitions (engine_config eng) s)))
                      [] regions)
           | Single s \<Rightarrow> Inr (map event (getTransitions (engine_config eng) s))))"

section \<open>Properties: vocabulary and example inputs\<close>

text \<open>
  The words of the specification for transition resolution: a candidate can be
  selected when its event matches and its guard is absent or returns true.
\<close>

definition spec_selectable :: "'v Transition \<Rightarrow> string \<Rightarrow> 'v Context \<Rightarrow> bool" where
  "spec_selectable t ev c =
     (event t = ev \<and> (case guard t of None \<Rightarrow> True | Some g \<Rightarrow> g c = Allowed True))"

text \<open>The timers scheduled and the error-handler calls recorded in a trace, in order.\<close>

fun scheduledDelays :: "Effect list \<Rightarrow> JsNumber list" where
  "scheduledDelays [] = []"
| "scheduledDelays (Delay d # es) = d # scheduledDelays es"
| "scheduledDelays (e # es) = scheduledDelays es"

fun handlerCalls :: "Effect list \<Rightarrow> string list" where
  "handlerCalls [] = []"
| "handlerCalls (ErrorHandler m # es) = m # handlerCalls es"
| "handlerCalls (e # es) = handlerCalls es"

definition hooksOnly :: "Effect list \<Rightarrow> bool" where
  "hooksOnly es = (scheduledDelays es = [] \<and> handlerCalls es = [])"

text \<open>A sequence of \<open>execute\<close> calls on one flow, one after the other (single writer).\<close>

fun executeSeq ::
  "'v FlowEngine \<Rightarrow> string \<Rightarrow> ('v FlowExecuteOptions \<times> nat) list \<Rightarrow> 'v World
     \<Rightarrow> (string + 'v FlowExecutionResult) list \<times> 'v World" where
  "executeSeq eng fid [] w = ([], w)"
| "executeSeq eng fid (call # calls) w =
     (case execute eng fid (fst call) (snd call) w of
        (r, w1) \<Rightarrow>
          (case executeSeq eng fid calls w1 of
             (rs, w2) \<Rightarrow> (r # rs, w2)))"

text \<open>
  What the idempotency law asks of user-supplied middleware: a step preserves bindings
  when it neither removes a stored flow nor unbinds an idempotency key, and a
  middleware is respectful when it preserves bindings provided its \<open>next\<close> does.
\<close>

definition preservesBindings :: "'v Step \<Rightarrow> bool" where
  "preservesBindings step =
     (\<forall>w r w'. step w = (r, w') \<longrightarrow>
        (\<forall>k. getFlowIdByIdempotencyKey (storage w) k \<noteq> None \<longrightarrow>
             getFlowIdByIdempotencyKey (storage w') k \<noteq> None) \<and>
        (\<forall>g. get (storage w) g \<noteq> None \<longrightarrow> get (storage w') g \<noteq> None))"

definition respectful :: "'v Middleware \<Rightarrow> bool" where
  "respectful m = (\<forall>mc next. preservesBindings next \<longrightarrow> preservesBindings (m mc next))"

text \<open>What a reader of a snapshot sees at \<open>snapshot.context[key]\<close> in a given heap.\<close>

definition readContextKey :: "'v Heap \<Rightarrow> FlowStateRef \<Rightarrow> string \<Rightarrow> 'v option" where
  "readContextKey heap snapshot key =
     (case flow_context (resolve heap snapshot) of
        Some (ContextObject c) \<Rightarrow> c key
      | _ \<Rightarrow> None)"

text \<open>What a reader of a snapshot sees at \<open>snapshot.history\<close> in a given heap.\<close>

definition readHistory :: "'v Heap \<Rightarrow> FlowStateRef \<Rightarrow> HistoryEntry list option" where
  "readHistory heap snapshot =
     (case history (resolve heap snapshot) of
        Some (HistoryObject h) \<Rightarrow> Some h
      | _ \<Rightarrow> None)"

text \<open>
  Example definitions. The approval flow has two guarded transitions on the same
  event; its guards raise when the amount is missing from the context.
\<close>

definition amountBelow :: "nat \<Rightarrow> nat TransitionGuard" where
  "amountBelow limit c = (case c ''amount'' of None \<Rightarrow> GuardThrew | Some a \<Rightarrow> Allowed (a < limit))"

definition amountAtLeast :: "nat \<Rightarrow> nat TransitionGuard" where
  "amountAtLeast limit c = (case c ''amount'' of None \<Rightarrow> GuardThrew | Some a \<Rightarrow> Allowed (limit \<le> a))"

definition plainState :: "string \<Rightarrow> nat Transition list \<Rightarrow> nat StateNode" where
  "plainState n ts =
     \<lparr>name = n, node_type = None, transitions = Some ts, onEntry = None, onExit = None,
      isFinal = None, validation = None\<rparr>"

definition finalState :: "string \<Rightarrow> nat StateNode" where
  "finalState n =
     \<lparr>name = n, node_type = Some Final, transitions = None, onEntry = None, onExit = None,
      isFinal = None, validation = None\<rparr>"

definition approveSmall :: "nat Transition" where
  "approveSmall = \<lparr>from_state = None, event = ''APPROVE'', to = ''approved'',
      guard = Some (amountBelow 10000), action = None, retry = None\<rparr>"

definition approveLarge :: "nat Transition" where
  "approveLarge = \<lparr>from_state = None, event = ''APPROVE'', to = ''manager-review'',
      guard = Some (amountAtLeast 10000), action = None, retry = None\<rparr>"

definition approvalConfig :: "nat StateMachineConfig" where
  "approvalConfig =
     \<lparr>config_id = ''order'', config_version = None, initialState = ''pending'',
      states = [''pending'' \<mapsto> plainState ''pending'' [approveSmall, approveLarge],
                ''approved'' \<mapsto> finalState ''approved'',
                ''manager-review'' \<mapsto> plainState ''manager-review'' []],
      global_transitions = None, onError = None\<rparr>"

text \<open>
  The submit flow has one transition whose action raises until it has been called
  \<open>n\<close> times before, and an error handler that itself raises.
\<close>

definition failsFirst :: "nat \<Rightarrow> nat TransitionAction" where
  "failsFirst n c =
     (let calls = (case c ''calls'' of None \<Rightarrow> 0 | Some k \<Rightarrow> k)
      in (c(''calls'' \<mapsto> calls + 1), if calls < n then Some ''temporary failure'' else None))"

definition submitWith :: "nat \<Rightarrow> RetryConfig \<Rightarrow> nat Transition" where
  "submitWith n policy = \<lparr>from_state = None, event = ''SUBMIT'', to = ''processing'',
      guard = None, action = Some (failsFirst n), retry = Some policy\<rparr>"

definition throwingHandler :: "string \<Rightarrow> nat TransitionAction" where
  "throwingHandler err c = (c(''handled'' \<mapsto> 1), Some ''handler failed'')"

definition submitConfig :: "nat \<Rightarrow> RetryConfig \<Rightarrow> nat StateMachineConfig" where
  "submitConfig n policy =
     \<lparr>config_id = ''submit'', config_version = None, initialState = ''draft'',
      states = [''draft'' \<mapsto> plainState ''draft'' [submitWith n policy],
                ''processing'' \<mapsto> finalState ''processing''],
      global_transitions = None, onError = Some throwingHandler\<rparr>"

definition retryTwice :: RetryConfig where
  "retryTwice = \<lparr>maxAttempts = Some 2, backoff = Some Exponential, delayMs = Some 10\<rparr>"

definition retryOnceNoDelay :: RetryConfig where
  "retryOnceNoDelay = \<lparr>maxAttempts = Some 1, backoff = Some Linear, delayMs = Some 0\<rparr>"

text \<open>Example engines, flows and worlds.\<close>

definition approvalEngine :: "nat FlowEngine" where
  "approvalEngine = \<lparr>engine_config = approvalConfig, middlewares = []\<rparr>"

definition newFlow :: "string \<Rightarrow> StateRef \<Rightarrow> nat Context \<Rightarrow> nat Flow" where
  "newFlow fid s c =
     \<lparr>flowId = fid, flowDefinitionId = ''order'', version = Some ''1.0.0'', currentState = s,
      flow_context = c, createdAt = 0, updatedAt = 0, history = [], status = Active,
      flow_error = None, compensations = [], parentFlowId = None\<rparr>"

definition worldWith :: "nat Flow list \<Rightarrow> nat World" where
  "worldWith flows =
     \<lparr>storage = foldl (\<lambda>st s. save s st) emptyStorage flows, trace = [], schedule = []\<rparr>"

definition pendingFlow :: "nat Flow" where
  "pendingFlow = newFlow ''f1'' (Single ''pending'') [''amount'' \<mapsto> 15000]"

definition pausedFlow :: "nat Flow" where
  "pausedFlow = pendingFlow\<lparr>status := Paused\<rparr>"

definition approveWithKey :: "nat FlowExecuteOptions" where
  "approveWithKey =
     \<lparr>opt_event = ''APPROVE'', data = None, targetRegion = None, idempotencyKey = Some ''k1''\<rparr>"

text \<open>
  An engine with two middlewares: one rejects very large amounts without calling
  \<open>next\<close>, the other only passes the call on.
\<close>

definition auditMiddleware :: "nat Middleware" where
  "auditMiddleware mc next w = next w"

definition rejectLargeMiddleware :: "nat Middleware" where
  "rejectLargeMiddleware mc next w =
     (case flow_context (mw_flowState mc) ''amount'' of
        Some a \<Rightarrow> if 1000000 < a then (Inl ''amount too large'', w) else next w
      | None \<Rightarrow> next w)"

definition auditedEngine :: "nat FlowEngine" where
  "auditedEngine = \<lparr>engine_config = approvalConfig, middlewares = [rejectLargeMiddleware, auditMiddleware]\<rparr>"

definition approveWithEmptyKey :: "nat FlowExecuteOptions" where
  "approveWithEmptyKey =
     \<lparr>opt_event = ''APPROVE'', data = None, targetRegion = None, idempotencyKey = Some ''''\<rparr>"

text \<open>Two regions, in states \<open>a\<close> and \<open>x\<close>, with global transitions.\<close>

definition globalTransition :: "string \<Rightarrow> string \<Rightarrow> string \<Rightarrow> nat Transition" where
  "globalTransition src ev dst =
     \<lparr>from_state = Some src, event = ev, to = dst, guard = None, action = None, retry = None\<rparr>"

definition parallelConfig :: "nat StateMachineConfig" where
  "parallelConfig =
     \<lparr>config_id = ''parallel'', config_version = None, initialState = ''a'',
      states = [''a'' \<mapsto> plainState ''a'' [], ''b'' \<mapsto> plainState ''b'' [],
                ''x'' \<mapsto> plainState ''x'' [], ''y'' \<mapsto> plainState ''y'' []],
      global_transitions = Some [globalTransition ''a'' ''EVENT_A'' ''b'',
                                 globalTransition ''x'' ''EVENT_X'' ''y''],
      onError = None\<rparr>"

definition parallelEngine :: "nat FlowEngine" where
  "parallelEngine = \<lparr>engine_config = parallelConfig, middlewares = []\<rparr>"

definition parallelFlow :: "nat Flow" where
  "parallelFlow = newFlow ''p1'' (Regions [''a'', ''x'']) Map.empty"

definition broadcast :: "string \<Rightarrow> nat FlowExecuteOptions" where
  "broadcast ev = \<lparr>opt_event = ev, data = None, targetRegion = None, idempotencyKey = None\<rparr>"

text \<open>
  Two regions that interfere: the action of the transition of region \<open>a\<close> sets a flag
  that the guard of the transition of region \<open>x\<close> reads.
\<close>

definition setFlag :: "nat TransitionAction" where
  "setFlag c = (c(''flag'' \<mapsto> 1), None)"

definition flagSet :: "nat TransitionGuard" where
  "flagSet c = Allowed (c ''flag'' = Some 1)"

definition interferingConfig :: "nat StateMachineConfig" where
  "interferingConfig =
     \<lparr>config_id = ''interfering'', config_version = None, initialState = ''a'',
      states = [''a'' \<mapsto> plainState ''a''
                          [\<lparr>from_state = None, event = ''GO'', to = ''b'', guard = None,
                            action = Some setFlag, retry = None\<rparr>],
                ''b'' \<mapsto> plainState ''b'' [],
                ''x'' \<mapsto> plainState ''x''
                          [\<lparr>from_state = None, event = ''GO'', to = ''y'', guard = Some flagSet,
                            action = None, retry = None\<rparr>],
                ''y'' \<mapsto> plainState ''y'' []],
      global_transitions = None, onError = None\<rparr>"

definition interferingEngine :: "nat FlowEngine" where
  "interferingEngine = \<lparr>engine_config = interferingConfig, middlewares = []\<rparr>"

text \<open>A flow with two recorded compensations; the one recorded last raises.\<close>

definition undo :: "string \<Rightarrow> bool \<Rightarrow> nat TransitionAction" where
  "undo key fails c = (c(key \<mapsto> 1), if fails then Some ''undo failed'' else None)"

definition sagaFlow :: "nat Flow" where
  "sagaFlow = (newFlow ''s1'' (Single ''step3'') Map.empty)
     \<lparr>compensations :=
        [\<lparr>comp_state = ''step1'', comp_action = undo ''undone1'' False, comp_timestamp = 1,
          description = Some ''u1''\<rparr>,
         \<lparr>comp_state = ''step2'', comp_action = undo ''undone2'' True, comp_timestamp = 2,
          description = Some ''u2''\<rparr>]\<rparr>"

text \<open>A stored flow read by reference, and a heap holding its three objects.\<close>

definition orderRef :: FlowStateRef where
  "orderRef =
     \<lparr>flowId = ''test-1'', flowDefinitionId = ''order-flow'', version = None,
      currentState = Single ''pending'', flow_context = 1, createdAt = 0, updatedAt = 0,
      history = 2, status = Active, flow_error = None, compensations = 3,
      parentFlowId = None\<rparr>"

definition orderHeap :: "nat Heap" where
  "orderHeap = [1 \<mapsto> ContextObject [''orderId'' \<mapsto> 123], 2 \<mapsto> HistoryObject [],
                3 \<mapsto> CompensationsObject []]"

definition forgedEntry :: HistoryEntry where
  "forgedEntry =
     \<lparr>history_from = Single ''pending'', history_to = Single ''approved'',
      history_timestamp = 7, history_event = Some ''FORGED''\<rparr>"

definition currentStateFilter :: "StateRef \<Rightarrow> FlowFilter" where
  "currentStateFilter s =
     \<lparr>filter_status = None, filter_flowDefinitionId = None, filter_version = None,
      filter_parentFlowId = None, filter_currentState = Some s\<rparr>"

section \<open>Evaluation of the examples\<close>

text \<open>The defining equations that the concrete instances below are computed with.\<close>

lemmas machine_defs =
  executeTransition_def findTransition_def getTransitions_def isAtomicState_def
  isParallelState_def endsWith_def dotFrom_def retryDefaults_def retryLoop.simps runAttempt_def
  callHook_def callValidation_def retriesExhausted_def failure_def isFinalState_def
  isCompoundState_def

lemmas num_defs =
  backoffDelay_def jsTimes_def mathPow2_def roundToDouble_def bitLength.simps Let_def

lemmas store_defs =
  worldWith_def emptyStorage_def save_def get_def getFlowIdByIdempotencyKey_def
  saveIdempotencyKey_def

lemmas example_defs =
  approvalEngine_def approvalConfig_def plainState_def finalState_def approveSmall_def
  approveLarge_def amountBelow_def amountAtLeast_def newFlow_def pendingFlow_def
  pausedFlow_def approveWithKey_def parallelConfig_def parallelEngine_def parallelFlow_def
  globalTransition_def broadcast_def failsFirst_def submitWith_def throwingHandler_def
  submitConfig_def retryTwice_def retryOnceNoDelay_def interferingConfig_def
  interferingEngine_def setFlag_def flagSet_def

lemmas parallel_defs =
  runRegions_def initialPc_def finished_def runToDone.simps finishRegions.simps outcome_def
  succeeded_def executeParallelTransition_def

lemmas engine_defs =
  execute_def checkIdempotencyKey_def executeCore_def tryTransition_def isFlowComplete_def
  replayResult_def notFound_def statusName_def

section \<open>Transition outcomes\<close>

lemma executeTransition_cases:
  "executeTransition config cur ev run = (r, run') \<Longrightarrow>
     (\<exists>m. r = failure cur ev m) \<or>
     (\<exists>target. r = \<lparr>success = True, fromState = Single cur, toState = Single target, result_event = ev, error = None\<rparr>)"
  unfolding executeTransition_def
  by (auto simp: retriesExhausted_def Let_def split: option.splits prod.splits bool.splits)

text \<open>
  Claim C2. Whenever \<open>executeTransition\<close> returns a failure, its \<open>toState\<close> equals its
  \<open>fromState\<close> and both are the current state that was passed in. The three ways to
  fail are an unknown state, no matching transition, and exhausted retries; the
  function has no other exit with \<open>success = false\<close>.
\<close>

theorem executeTransition_failure_keeps_state:
  assumes "\<not> success (fst (executeTransition config cur ev run))"
  shows "toState (fst (executeTransition config cur ev run)) =
           fromState (fst (executeTransition config cur ev run))
       \<and> fromState (fst (executeTransition config cur ev run)) = Single cur"
proof -
  obtain r run' where eq: "executeTransition config cur ev run = (r, run')"
    by (cases "executeTransition config cur ev run")
  from executeTransition_cases[OF eq] assms eq show ?thesis
    by (auto simp: failure_def)
qed

theorem executeTransition_failure_keeps_state_witness:
  "(\<not> success (fst (executeTransition approvalConfig ''nowhere'' ''APPROVE'' (Map.empty, [])))
    \<and> toState (fst (executeTransition approvalConfig ''nowhere'' ''APPROVE'' (Map.empty, [])))
        = Single ''nowhere'')
 \<and> (\<not> success (fst (executeTransition approvalConfig ''pending'' ''REJECT'' (Map.empty, [])))
    \<and> toState (fst (executeTransition approvalConfig ''pending'' ''REJECT'' (Map.empty, [])))
        = Single ''pending'')
 \<and> (\<not> success (fst (executeTransition (submitConfig 5 retryTwice) ''draft'' ''SUBMIT'' (Map.empty, [])))
    \<and> toState (fst (executeTransition (submitConfig 5 retryTwice) ''draft'' ''SUBMIT'' (Map.empty, [])))
        = Single ''draft'')"
proof -
  have a: "\<not> success (fst (executeTransition approvalConfig ''nowhere'' ''APPROVE'' (Map.empty, [])))"
    by (simp add: machine_defs num_defs example_defs)
  have b: "\<not> success (fst (executeTransition approvalConfig ''pending'' ''REJECT'' (Map.empty, [])))"
    by (simp add: machine_defs num_defs example_defs)
  have c: "\<not> success (fst (executeTransition (submitConfig 5 retryTwice) ''draft'' ''SUBMIT'' (Map.empty, [])))"
    by (simp add: machine_defs num_defs example_defs)
  from a b c
    executeTransition_failure_keeps_state[OF a]
    executeTransition_failure_keeps_state[OF b]
    executeTransition_failure_keeps_state[OF c]
  show ?thesis by simp
qed

section \<open>Transition resolution\<close>

lemma loop_Some:
  "findTransition_loop ts ev c = Some t \<Longrightarrow>
     \<exists>pre post. ts = pre @ t # post \<and> (\<forall>p\<in>set pre. \<not> spec_selectable p ev c) \<and> spec_selectable t ev c"
proof (induction ts)
  case Nil
  then show ?case by simp
next
  case (Cons a ts)
  show ?case
  proof (cases "spec_selectable a ev c")
    case True
    then have "findTransition_loop (a # ts) ev c = Some a"
      by (auto simp: spec_selectable_def split: option.splits GuardOutcome.splits)
    with Cons.prems have "t = a" by simp
    with True show ?thesis by (intro exI[of _ "[]"] exI[of _ ts]) simp
  next
    case False
    then have "findTransition_loop (a # ts) ev c = findTransition_loop ts ev c"
      by (auto simp: spec_selectable_def split: option.splits GuardOutcome.splits)
    with Cons.prems have "findTransition_loop ts ev c = Some t" by simp
    from Cons.IH[OF this] obtain pre post where
      "ts = pre @ t # post" "\<forall>p\<in>set pre. \<not> spec_selectable p ev c" "spec_selectable t ev c"
      by blast
    with False show ?thesis
      by (intro exI[of _ "a # pre"] exI[of _ post]) simp
  qed
qed

lemma loop_None:
  "findTransition_loop ts ev c = None \<longleftrightarrow> (\<forall>p\<in>set ts. \<not> spec_selectable p ev c)"
  by (induction ts) (auto simp: spec_selectable_def split: option.splits GuardOutcome.splits)

text \<open>
  Claim C6. For a known source state the candidates are the state's own transitions
  followed by the matching global ones; the transition selected is the first
  candidate whose event matches and whose guard is absent or returns true (a guard
  that raises or returns false is passed over); when no candidate can be selected,
  \<open>executeTransition\<close> fails with the no-valid-transition error and leaves the context
  and the trace as they were, so no hook or action has run.
\<close>

theorem findTransition_first_match:
  assumes "states config cur = Some state"
  shows "getTransitions config cur =
           (if isAtomicState state \<or> isParallelState state
            then (case transitions state of None \<Rightarrow> [] | Some ts \<Rightarrow> ts) else [])
           @ filter (\<lambda>t. from_state t = Some cur \<or> endsWith cur (dotFrom t))
               (case global_transitions config of None \<Rightarrow> [] | Some gs \<Rightarrow> gs)
       \<and> (case findTransition config cur ev c of
            Some t \<Rightarrow>
              \<exists>pre post. getTransitions config cur = pre @ t # post \<and>
                 (\<forall>p\<in>set pre. \<not> spec_selectable p ev c) \<and> spec_selectable t ev c
          | None \<Rightarrow>
              (\<forall>p\<in>set (getTransitions config cur). \<not> spec_selectable p ev c) \<and>
              executeTransition config cur ev (c, tr) =
                (\<lparr>success = False, fromState = Single cur, toState = Single cur,
                  result_event = ev,
                  error = Some (''No valid transition for event \"'' @ ev @ ''\" from state \"''
                                @ cur @ ''\"'')\<rparr>,
                 (c, tr)))"
proof -
  have shape: "getTransitions config cur =
           (if isAtomicState state \<or> isParallelState state
            then (case transitions state of None \<Rightarrow> [] | Some ts \<Rightarrow> ts) else [])
           @ filter (\<lambda>t. from_state t = Some cur \<or> endsWith cur (dotFrom t))
               (case global_transitions config of None \<Rightarrow> [] | Some gs \<Rightarrow> gs)"
    using assms by (simp add: getTransitions_def split: option.splits)
  have ft: "findTransition config cur ev c =
              findTransition_loop (getTransitions config cur) ev c"
    using assms by (simp add: findTransition_def)
  have sel: "case findTransition config cur ev c of
            Some t \<Rightarrow>
              \<exists>pre post. getTransitions config cur = pre @ t # post \<and>
                 (\<forall>p\<in>set pre. \<not> spec_selectable p ev c) \<and> spec_selectable t ev c
          | None \<Rightarrow>
              (\<forall>p\<in>set (getTransitions config cur). \<not> spec_selectable p ev c) \<and>
              executeTransition config cur ev (c, tr) =
                (\<lparr>success = False, fromState = Single cur, toState = Single cur,
                  result_event = ev,
                  error = Some (''No valid transition for event \"'' @ ev @ ''\" from state \"''
                                @ cur @ ''\"'')\<rparr>,
                 (c, tr))"
  proof (cases "findTransition config cur ev c")
    case None
    with ft have "findTransition_loop (getTransitions config cur) ev c = None"
      by simp
    then have "\<forall>p\<in>set (getTransitions config cur). \<not> spec_selectable p ev c"
      by (simp only: loop_None)
    moreover from None assms have "executeTransition config cur ev (c, tr) =
        (failure cur ev (''No valid transition for event \"'' @ ev @ ''\" from state \"''
                                @ cur @ ''\"''), (c, tr))"
      by (simp add: executeTransition_def)
    ultimately show ?thesis using None by (simp add: failure_def)
  next
    case (Some t)
    with ft have l: "findTransition_loop (getTransitions config cur) ev c = Some t"
      by simp
    from loop_Some[OF l] Some show ?thesis by simp
  qed
  from shape sel show ?thesis by (rule conjI)
qed

theorem findTransition_first_match_witness:
  "findTransition approvalConfig ''pending'' ''APPROVE'' [''amount'' \<mapsto> 15000] = Some approveLarge
   \<and> (\<exists>pre post. getTransitions approvalConfig ''pending'' = pre @ approveLarge # post \<and>
         (\<forall>p\<in>set pre. \<not> spec_selectable p ''APPROVE'' [''amount'' \<mapsto> 15000]) \<and>
         spec_selectable approveLarge ''APPROVE'' [''amount'' \<mapsto> 15000])"
proof -
  have st: "states approvalConfig ''pending'' = Some (plainState ''pending'' [approveSmall, approveLarge])"
    by (simp add: approvalConfig_def)
  have ft: "findTransition approvalConfig ''pending'' ''APPROVE'' [''amount'' \<mapsto> 15000] = Some approveLarge"
    by (simp add: findTransition_def getTransitions_def approvalConfig_def plainState_def
        isAtomicState_def approveSmall_def approveLarge_def amountBelow_def amountAtLeast_def)
  from findTransition_first_match[OF st, of "''APPROVE''" "[''amount'' \<mapsto> 15000]" "[]"]
  have "case findTransition approvalConfig ''pending'' ''APPROVE'' [''amount'' \<mapsto> 15000] of
          Some t \<Rightarrow>
            \<exists>pre post. getTransitions approvalConfig ''pending'' = pre @ t # post \<and>
               (\<forall>p\<in>set pre. \<not> spec_selectable p ''APPROVE'' [''amount'' \<mapsto> 15000]) \<and>
               spec_selectable t ''APPROVE'' [''amount'' \<mapsto> 15000]
        | None \<Rightarrow>
            (\<forall>p\<in>set (getTransitions approvalConfig ''pending'').
                \<not> spec_selectable p ''APPROVE'' [''amount'' \<mapsto> 15000]) \<and>
            executeTransition approvalConfig ''pending'' ''APPROVE'' ([''amount'' \<mapsto> 15000], []) =
              (\<lparr>success = False, fromState = Single ''pending'', toState = Single ''pending'',
                result_event = ''APPROVE'',
                error = Some (''No valid transition for event \"'' @ ''APPROVE'' @ ''\" from state \"''
                              @ ''pending'' @ ''\"'')\<rparr>,
               ([''amount'' \<mapsto> 15000], []))"
    by (rule conjunct2)
  with ft show ?thesis by (simp only: option.case)
qed

section \<open>Retry schedule and error handler\<close>

lemma scheduledDelays_append [simp]:
  "scheduledDelays (xs @ ys) = scheduledDelays xs @ scheduledDelays ys"
  by (induction xs rule: scheduledDelays.induct) simp_all

lemma handlerCalls_append [simp]:
  "handlerCalls (xs @ ys) = handlerCalls xs @ handlerCalls ys"
  by (induction xs rule: handlerCalls.induct) simp_all

lemma callHook_trace:
  assumes "callHook label hook run = (res, run')"
    and "scheduledDelays [label] = []" and "handlerCalls [label] = []"
  shows "\<exists>new. snd run' = snd run @ new \<and> hooksOnly new"
  using assms
  by (cases hook) (auto simp: callHook_def hooksOnly_def split: prod.splits)

lemma callValidation_trace:
  assumes "callValidation target v run = (res, run')"
  shows "\<exists>new. snd run' = snd run @ new \<and> hooksOnly new"
  using assms
  by (cases v) (auto simp: callValidation_def hooksOnly_def split: prod.splits)

lemma hooksOnly_append [simp]: "hooksOnly (xs @ ys) \<longleftrightarrow> hooksOnly xs \<and> hooksOnly ys"
  by (auto simp: hooksOnly_def)

lemma runAttempt_trace:
  assumes "runAttempt config state cur t run = (res, run')"
  shows "\<exists>new. snd run' = snd run @ new \<and> hooksOnly new"
proof -
  obtain r1 run1 where h1: "callHook (ExitHook cur) (onExit state) run = (r1, run1)"
    by (cases "callHook (ExitHook cur) (onExit state) run")
  from callHook_trace[OF h1] obtain n1 where n1: "snd run1 = snd run @ n1" "hooksOnly n1"
    by auto
  show ?thesis
  proof (cases r1)
    case (Some e)
    with assms h1 have "run' = run1" by (simp add: runAttempt_def)
    with n1 show ?thesis by blast
  next
    case None
    obtain r2 run2 where h2:
      "callHook (ActionHook (event t) (to t)) (action t) run1 = (r2, run2)"
      by (cases "callHook (ActionHook (event t) (to t)) (action t) run1")
    from callHook_trace[OF h2] obtain n2 where n2: "snd run2 = snd run1 @ n2" "hooksOnly n2"
      by auto
    have t2: "snd run2 = snd run @ (n1 @ n2)" "hooksOnly (n1 @ n2)"
      using n1 n2 by simp_all
    show ?thesis
    proof (cases r2)
      case (Some e)
      with assms h1 h2 None have "run' = run2" by (simp add: runAttempt_def)
      with t2 show ?thesis by blast
    next
      case r2None: None
      show ?thesis
      proof (cases "states config (to t)")
        case None
        with assms h1 h2 \<open>r1 = None\<close> r2None have "run' = run2" by (simp add: runAttempt_def)
        with t2 show ?thesis by blast
      next
        case (Some target)
        obtain r3 run3 where h3:
          "callValidation (to t) (validation target) run2 = (r3, run3)"
          by (cases "callValidation (to t) (validation target) run2")
        from callValidation_trace[OF h3] obtain n3 where n3: "snd run3 = snd run2 @ n3" "hooksOnly n3"
          by auto
        have t3: "snd run3 = snd run @ (n1 @ n2 @ n3)" "hooksOnly (n1 @ n2 @ n3)"
          using t2 n3 by simp_all
        show ?thesis
        proof (cases r3)
          case r3Some: (Some e)
          with assms h1 h2 h3 \<open>r1 = None\<close> r2None Some have "run' = run3"
            by (simp add: runAttempt_def)
          with t3 show ?thesis by blast
        next
          case r3None: None
          with assms h1 h2 h3 \<open>r1 = None\<close> r2None Some
          have h4: "callHook (EntryHook (to t)) (onEntry target) run3 = (res, run')"
            by (simp add: runAttempt_def)
          from callHook_trace[OF h4] obtain n4 where n4: "snd run' = snd run3 @ n4" "hooksOnly n4"
            by auto
          have "snd run' = snd run @ (n1 @ n2 @ n3 @ n4)" "hooksOnly (n1 @ n2 @ n3 @ n4)"
            using t3 n4 by simp_all
          then show ?thesis by blast
        qed
      qed
    qed
  qed
qed

lemma retryLoop_trace:
  "retryLoop config state cur t maxA strategy delay a le run = (ok, le', run') \<Longrightarrow>
     \<exists>new. snd run' = snd run @ new \<and> handlerCalls new = [] \<and>
       scheduledDelays new =
         map (backoffDelay strategy delay) [a ..< a + length (scheduledDelays new)] \<and>
       (a \<le> maxA \<longrightarrow> a + length (scheduledDelays new) \<le> maxA \<and>
          (\<not> ok \<longrightarrow> a + length (scheduledDelays new) = maxA \<and> le' \<noteq> None)) \<and>
       (maxA < a \<longrightarrow> new = [] \<and> \<not> ok \<and> le' = le)"
proof (induction config state cur t maxA strategy delay a le run arbitrary: ok le' run'
       rule: retryLoop.induct)
  case (1 config state cur t maxA strategy delay a le run)
  show ?case
  proof (cases "a \<le> maxA")
    case False
    with "1.prems" show ?thesis
      by (simp add: retryLoop.simps)
  next
    case True
    obtain res run1 where att: "runAttempt config state cur t run = (res, run1)"
      by (cases "runAttempt config state cur t run")
    from runAttempt_trace[OF att] obtain n1 where n1: "snd run1 = snd run @ n1" "hooksOnly n1"
      by auto
    show ?thesis
    proof (cases res)
      case None
      with "1.prems" True att have "ok" "run' = run1"
        by (simp_all add: retryLoop.simps)
      with n1 True show ?thesis
        by (intro exI[of _ n1]) (simp add: hooksOnly_def)
    next
      case (Some e)
      define run2 where "run2 = (if a < maxA
                then (fst run1, snd run1 @ [Delay (backoffDelay strategy delay a)])
                else run1)"
      from "1.prems" True att Some
      have rec: "retryLoop config state cur t maxA strategy delay (a + 1) (Some e) run2 = (ok, le', run')"
        by (simp add: retryLoop.simps[of _ _ _ _ _ _ _ a] run2_def)
      from "1.IH"[OF True att[symmetric] Some rec[unfolded run2_def]]
      obtain n2 where n2: "snd run' = snd run2 @ n2" "handlerCalls n2 = []"
        "scheduledDelays n2 = map (backoffDelay strategy delay) [a + 1 ..< a + 1 + length (scheduledDelays n2)]"
        "a + 1 \<le> maxA \<longrightarrow> a + 1 + length (scheduledDelays n2) \<le> maxA \<and>
          (\<not> ok \<longrightarrow> a + 1 + length (scheduledDelays n2) = maxA \<and> le' \<noteq> None)"
        "maxA < a + 1 \<longrightarrow> n2 = [] \<and> \<not> ok \<and> le' = Some e"
        unfolding run2_def by auto
      show ?thesis
      proof (cases "a < maxA")
        case lt: True
        have "snd run' = snd run @ (n1 @ [Delay (backoffDelay strategy delay a)] @ n2)"
          using n1 n2(1) lt by (simp add: run2_def)
        moreover have "handlerCalls (n1 @ [Delay (backoffDelay strategy delay a)] @ n2) = []"
          using n1 n2(2) by (simp add: hooksOnly_def)
        moreover have "scheduledDelays (n1 @ [Delay (backoffDelay strategy delay a)] @ n2) =
             backoffDelay strategy delay a # scheduledDelays n2"
          using n1 by (simp add: hooksOnly_def)
        moreover have "backoffDelay strategy delay a # scheduledDelays n2 =
             map (backoffDelay strategy delay) [a ..< a + Suc (length (scheduledDelays n2))]"
        proof -
          have "[a ..< a + Suc (length (scheduledDelays n2))] =
                a # [a + 1 ..< a + 1 + length (scheduledDelays n2)]"
            by (simp only: upt_conv_Cons[of a "a + Suc (length (scheduledDelays n2))"]) simp
          then have "map (backoffDelay strategy delay) [a ..< a + Suc (length (scheduledDelays n2))] =
                backoffDelay strategy delay a #
                map (backoffDelay strategy delay) [a + 1 ..< a + 1 + length (scheduledDelays n2)]"
            by (simp only: list.map)
          with n2(3) show ?thesis by (simp only:)
        qed
        ultimately show ?thesis
          using n2(4) lt True
          by (intro exI[of _ "n1 @ [Delay (backoffDelay strategy delay a)] @ n2"]) auto
      next
        case ge: False
        with True have eq: "a = maxA" by simp
        with n2(5) have "n2 = []" "\<not> ok" "le' = Some e" by simp_all
        moreover have "snd run' = snd run @ n1"
          using n1 n2(1) ge \<open>n2 = []\<close> by (simp add: run2_def)
        ultimately show ?thesis
          using n1 eq by (intro exI[of _ n1]) (simp add: hooksOnly_def)
      qed
    qed
  qed
qed

lemma executeTransition_retry_general:
  assumes st: "states config cur = Some state"
    and ft: "findTransition config cur ev (fst run) = Some t"
    and rd: "retryDefaults t = (m, b, base)"
    and ex: "executeTransition config cur ev run = (r, run')"
  shows "\<exists>new. snd run' = snd run @ new \<and>
     scheduledDelays new = map (backoffDelay b base) [0 ..< length (scheduledDelays new)] \<and>
     length (scheduledDelays new) \<le> m \<and>
     (success r \<longrightarrow> handlerCalls new = [] \<and> error r = None) \<and>
     (\<not> success r \<longrightarrow> length (scheduledDelays new) = m \<and>
        (\<exists>e. error r = Some e \<and> handlerCalls new = (if onError config = None then [] else [e])))"
proof -
  obtain ok le run1 where loop:
    "retryLoop config state cur t m b base 0 None run = (ok, le, run1)"
    by (cases "retryLoop config state cur t m b base 0 None run") 
  from retryLoop_trace[OF loop] obtain n1 where n1:
    "snd run1 = snd run @ n1" "handlerCalls n1 = []"
    "scheduledDelays n1 = map (backoffDelay b base) [0 ..< length (scheduledDelays n1)]"
    "length (scheduledDelays n1) \<le> m"
    "\<not> ok \<longrightarrow> length (scheduledDelays n1) = m \<and> le \<noteq> None"
    by auto
  show ?thesis
  proof (cases ok)
    case True
    with ex st ft rd loop have "r = \<lparr>success = True, fromState = Single cur,
            toState = Single (to t), result_event = ev, error = None\<rparr>" "run' = run1"
      by (simp_all add: executeTransition_def)
    with n1 show ?thesis by (intro exI[of _ n1]) simp
  next
    case False
    with n1(5) obtain e where e: "le = Some e" and len: "length (scheduledDelays n1) = m" by auto
    from False ex st ft rd loop
    have ex': "retriesExhausted config cur ev le run1 = (r, run')"
      by (simp add: executeTransition_def)
    show ?thesis
    proof (cases "onError config")
      case None
      with ex' e have "r = failure cur ev e" "run' = run1"
        by (simp_all add: retriesExhausted_def)
      with n1 len None show ?thesis
        by (intro exI[of _ n1]) (simp add: failure_def)
    next
      case (Some handler)
      with ex' e have "r = failure cur ev e" "snd run' = snd run1 @ [ErrorHandler e]"
        by (auto simp: retriesExhausted_def split: prod.splits)
      with n1 len Some show ?thesis
        by (intro exI[of _ "n1 @ [ErrorHandler e]"]) (simp add: failure_def)
    qed
  qed
qed

text \<open>
  The rounding of the delay: three times the largest safe integer is not a double, and
  the product is the even neighbour.
\<close>

lemma backoffDelay_rounds:
  "backoffDelay Linear 9007199254740991 2 = Num 27021597764222972"
  by (simp add: num_defs)

lemma backoffDelay_exact:
  "backoffDelay Linear 10 2 = Num 30 \<and> backoffDelay Exponential 10 3 = Num 80
   \<and> backoffDelay Exponential 1 1024 = Infinity"
  by (simp add: num_defs)

text \<open>
  Claim C5 asks that the delay after the failed attempt \<open>i\<close> is \<open>delayMs * (i + 1)\<close> for
  linear backoff. The code reads the policy with \<open>retryConfig.delayMs || 1000\<close>, which
  replaces an explicit \<open>delayMs\<close> of \<open>0\<close> by the default: for the policy
  \<open>{maxAttempts = 1, backoff = linear, delayMs = 0}\<close> and an action that always fails, the
  one timer scheduled waits \<open>1000\<close>, not \<open>0\<close>.
\<close>

theorem retry_delay_zero_uses_default:
  "retry (submitWith 5 retryOnceNoDelay) =
     Some \<lparr>maxAttempts = Some 1, backoff = Some Linear, delayMs = Some 0\<rparr>
   \<and> scheduledDelays (snd (snd (executeTransition (submitConfig 5 retryOnceNoDelay)
         ''draft'' ''SUBMIT'' (Map.empty, [])))) = [Num 1000]
   \<and> Num 1000 \<noteq> Num (0 * (0 + 1))"
proof -
  have "scheduledDelays (snd (snd (executeTransition (submitConfig 5 retryOnceNoDelay)
         ''draft'' ''SUBMIT'' (Map.empty, [])))) = [Num 1000]"
    by (simp add: machine_defs num_defs example_defs)
  then show ?thesis by (simp add: submitWith_def retryOnceNoDelay_def)
qed

section \<open>Compensation\<close>

lemma runCompensations_result:
  "runCompensations entries run =
     (foldl (\<lambda>c r. fst (comp_action r c)) (fst run) entries,
      snd run @ map (\<lambda>r. CompensationHook (comp_state r) (description r)) entries)"
  by (induction entries arbitrary: run) (simp_all split: prod.splits)

text \<open>
  Claim C1. With an empty stack \<open>compensate\<close> marks the flow failed with the reason as
  error message, calls nothing and returns \<open>false\<close>. With a non-empty stack it calls
  every recorded action once, last recorded first (the trace grows by exactly one call
  per record, in reverse order of the stack), each on the context the previous one
  left whether or not that one raised; the stack itself is unchanged; the flow ends
  failed with the reason followed by \<open>(compensated)\<close>, and the result is \<open>true\<close>.
\<close>

theorem compensate_contract:
  assumes "compensate flowState reason now w = (didCompensate, flowState', w')"
  shows "(compensations flowState = [] \<longrightarrow>
            \<not> didCompensate \<and> status flowState' = Failed \<and>
            map_option message (flow_error flowState') = Some reason \<and>
            flow_context flowState' = flow_context flowState \<and> trace w' = trace w) \<and>
         (compensations flowState \<noteq> [] \<longrightarrow>
            didCompensate \<and> status flowState' = Failed \<and>
            map_option message (flow_error flowState') = Some (reason @ '' (compensated)'') \<and>
            compensations flowState' = compensations flowState \<and>
            trace w' = trace w @ map (\<lambda>r. CompensationHook (comp_state r) (description r))
                                   (rev (compensations flowState)) \<and>
            flow_context flowState' =
              foldl (\<lambda>c r. fst (comp_action r c)) (flow_context flowState)
                (rev (compensations flowState)))"
  using assms
  by (auto simp: compensate_def Let_def runCompensations_result)

theorem compensate_contract_witness:
  "fst (compensate sagaFlow ''boom'' 9 (worldWith []))
   \<and> status (fst (snd (compensate sagaFlow ''boom'' 9 (worldWith [])))) = Failed
   \<and> map_option message (flow_error (fst (snd (compensate sagaFlow ''boom'' 9 (worldWith [])))))
       = Some ''boom (compensated)''
   \<and> trace (snd (snd (compensate sagaFlow ''boom'' 9 (worldWith []))))
       = [CompensationHook ''step2'' (Some ''u2''), CompensationHook ''step1'' (Some ''u1'')]
   \<and> \<not> fst (compensate pendingFlow ''boom'' 9 (worldWith []))
   \<and> map_option message (flow_error (fst (snd (compensate pendingFlow ''boom'' 9 (worldWith [])))))
       = Some ''boom''"
proof -
  let ?x = "compensate sagaFlow ''boom'' 9 (worldWith [])"
  let ?y = "compensate pendingFlow ''boom'' 9 (worldWith [])"
  have x: "?x = (fst ?x, fst (snd ?x), snd (snd ?x))" by simp
  have y: "?y = (fst ?y, fst (snd ?y), snd (snd ?y))" by simp
  have nx: "compensations sagaFlow \<noteq> []" by (simp add: sagaFlow_def)
  have ny: "compensations pendingFlow = []" by (simp add: pendingFlow_def newFlow_def)
  from compensate_contract[OF x] nx compensate_contract[OF y] ny
  show ?thesis by (simp add: sagaFlow_def worldWith_def)
qed

section \<open>Storage and frame lemmas\<close>

lemma get_save: "get (save s st) f = (if f = flowId s then Some s else get st f)"
  by (simp add: get_def save_def update_conv')

lemma keys_save: "getFlowIdByIdempotencyKey (save s st) k = getFlowIdByIdempotencyKey st k"
  by (simp add: getFlowIdByIdempotencyKey_def save_def)

lemma get_saveKey: "get (saveIdempotencyKey k f st) g = get st g"
  by (simp add: get_def saveIdempotencyKey_def)

lemma keys_saveKey:
  "getFlowIdByIdempotencyKey (saveIdempotencyKey k f st) k' =
     (if k' = k then (if f = [] then None else Some f) else getFlowIdByIdempotencyKey st k')"
  by (simp add: getFlowIdByIdempotencyKey_def saveIdempotencyKey_def update_conv')

lemma compensate_frame:
  assumes "compensate flowState reason now w = (didCompensate, flowState', w')"
  shows "flowId flowState' = flowId flowState" "currentState flowState' = currentState flowState"
    "history flowState' = history flowState"
    "getFlowIdByIdempotencyKey (storage w') k = getFlowIdByIdempotencyKey (storage w) k"
    "get (storage w) g \<noteq> None \<Longrightarrow> get (storage w') g \<noteq> None"
  using assms
  by (auto simp: compensate_def Let_def get_save keys_save split: if_splits)

lemma tryTransition_flowId:
  assumes "tryTransition eng flowState options now tr sched = (res, flowState', tr', sched')"
  shows "flowId flowState' = flowId flowState"
  using assms
  by (auto simp: tryTransition_def Let_def split: StateRef.splits prod.splits sum.splits if_splits)

lemma executeCore_frame:
  assumes "executeCore eng fid options now w = (r, w')"
  shows "getFlowIdByIdempotencyKey (storage w') k = getFlowIdByIdempotencyKey (storage w) k"
    and "get (storage w) g \<noteq> None \<Longrightarrow> get (storage w') g \<noteq> None"
proof -
  show "getFlowIdByIdempotencyKey (storage w') k = getFlowIdByIdempotencyKey (storage w) k"
  proof (cases "get (storage w) fid")
    case None
    with assms show ?thesis by (simp add: executeCore_def)
  next
    case (Some stored)
    show ?thesis
    proof (cases "status stored = Active")
      case False
      with Some assms show ?thesis by (simp add: executeCore_def)
    next
      case True
      define flowState where "flowState = (case data options of
                                None \<Rightarrow> stored
                              | Some d \<Rightarrow> stored\<lparr>flow_context := flow_context stored ++ d\<rparr>)"
      obtain res fs1 tr1 sched1 where
        tt: "tryTransition eng flowState options now (trace w) (schedule w) = (res, fs1, tr1, sched1)"
        by (metis prod_cases4)
      show ?thesis
      proof (cases res)
        case (Inr transition)
        with assms Some True tt show ?thesis
          by (auto simp: executeCore_def flowState_def[symmetric] keys_save)
      next
        case (Inl thrown)
        obtain d fs2 w2 where
          c: "compensate fs1 thrown now (w\<lparr>trace := tr1, schedule := sched1\<rparr>) = (d, fs2, w2)"
          by (metis prod_cases3)
        from compensate_frame(4)[OF c]
        have "getFlowIdByIdempotencyKey (storage w2) k = getFlowIdByIdempotencyKey (storage w) k"
          by simp
        with assms Some True tt Inl c show ?thesis
          by (auto simp: executeCore_def flowState_def[symmetric] keys_save)
      qed
    qed
  qed
next
  assume ex: "get (storage w) g \<noteq> None"
  show "get (storage w') g \<noteq> None"
  proof (cases "get (storage w) fid")
    case None
    with assms ex show ?thesis by (simp add: executeCore_def)
  next
    case (Some stored)
    show ?thesis
    proof (cases "status stored = Active")
      case False
      with Some assms ex show ?thesis by (simp add: executeCore_def)
    next
      case True
      define flowState where "flowState = (case data options of
                                None \<Rightarrow> stored
                              | Some d \<Rightarrow> stored\<lparr>flow_context := flow_context stored ++ d\<rparr>)"
      obtain res fs1 tr1 sched1 where
        tt: "tryTransition eng flowState options now (trace w) (schedule w) = (res, fs1, tr1, sched1)"
        by (metis prod_cases4)
      show ?thesis
      proof (cases res)
        case (Inr transition)
        with assms Some True tt ex show ?thesis
          by (auto simp: executeCore_def flowState_def[symmetric] get_save)
      next
        case (Inl thrown)
        obtain d fs2 w2 where
          c: "compensate fs1 thrown now (w\<lparr>trace := tr1, schedule := sched1\<rparr>) = (d, fs2, w2)"
          by (metis prod_cases3)
        from compensate_frame(5)[OF c] ex have "get (storage w2) g \<noteq> None"
          by simp
        with assms Some True tt Inl c show ?thesis
          by (auto simp: executeCore_def flowState_def[symmetric] get_save)
      qed
    qed
  qed
qed

section \<open>Parallel broadcast\<close>

subsection \<open>The regions' calls as an interleaving of steps\<close>

lemma finished_step: "finished pc \<Longrightarrow> regionStep config cur ev pc run = (pc, run)"
  by (cases pc) (simp_all add: finished_def)

lemma runToDone_finished: "finished pc \<Longrightarrow> runToDone config cur ev pc run = (pc, run)"
  by (simp add: runToDone.simps)

lemma runToDone_step:
  "runToDone config cur ev pc run =
     (case regionStep config cur ev pc run of (pc', run') \<Rightarrow> runToDone config cur ev pc' run')"
  by (cases "finished pc") (simp_all add: finished_step runToDone_finished, subst runToDone.simps, simp)

lemma regionsStep_length:
  "regionsStep config regions ev c c' \<Longrightarrow> length (fst c') = length (fst c)"
  by (induction rule: regionsStep.induct) simp

lemma regionsSteps_length:
  "(regionsStep config regions ev)\<^sup>*\<^sup>* c c' \<Longrightarrow> length (fst c') = length (fst c)"
  by (induction rule: rtranclp_induct) (simp_all add: regionsStep_length)

lemma runToDone_regions:
  "\<forall>pcs. i < length pcs \<longrightarrow> i < length regions \<longrightarrow> pcs ! i = pc \<longrightarrow> cur = regions ! i \<longrightarrow>
     runToDone config cur ev pc run = (pc', run') \<longrightarrow>
     (regionsStep config regions ev)\<^sup>*\<^sup>* (pcs, run) (pcs[i := pc'], run') \<and> finished pc'"
proof (induction config cur ev pc run rule: runToDone.induct)
  case (1 config cur ev pc run)
  show ?case
  proof (intro allI impI)
    fix pcs :: "'a RegionPc list"
    assume i: "i < length pcs" "i < length regions" and pc: "pcs ! i = pc" and cur: "cur = regions ! i"
      and rd: "runToDone config cur ev pc run = (pc', run')"
    show "(regionsStep config regions ev)\<^sup>*\<^sup>* (pcs, run) (pcs[i := pc'], run') \<and> finished pc'"
    proof (cases "finished pc")
      case True
      with rd have "pc' = pc" "run' = run" by (simp_all add: runToDone_finished)
      moreover from pc have "pcs[i := pc] = pcs" by (metis list_update_id)
      ultimately show ?thesis using True by simp
    next
      case False
      obtain pc1 run1 where st: "regionStep config cur ev pc run = (pc1, run1)"
        by (cases "regionStep config cur ev pc run")
      from rd False st have rd1: "runToDone config cur ev pc1 run1 = (pc', run')"
        by (subst (asm) runToDone.simps) simp
      have one: "regionsStep config regions ev (pcs, run) (pcs[i := pc1], run1)"
        using i False pc cur st by (intro regionsStep.resume) simp_all
      from "1.IH"[OF False st[symmetric], rule_format, of "pcs[i := pc1]"] i cur rd1
      have "(regionsStep config regions ev)\<^sup>*\<^sup>* (pcs[i := pc1], run1) ((pcs[i := pc1])[i := pc'], run')"
        and f: "finished pc'"
        by simp_all
      then have "(regionsStep config regions ev)\<^sup>*\<^sup>* (pcs[i := pc1], run1) (pcs[i := pc'], run')"
        by simp
      from converse_rtranclp_into_rtranclp[of "regionsStep config regions ev", OF one this] f
      show ?thesis by simp
    qed
  qed
qed

lemma runSchedule_steps:
  "runSchedule config regions ev sched pcs run = (pcs', run', rest) \<Longrightarrow>
     (regionsStep config regions ev)\<^sup>*\<^sup>* (pcs, run) (pcs', run')"
proof (induction sched arbitrary: pcs run)
  case Nil
  then show ?case by simp
next
  case (Cons i sched)
  show ?case
  proof (cases "list_all finished pcs")
    case True
    with Cons.prems show ?thesis by simp
  next
    case nf: False
    show ?thesis
    proof (cases "i < length pcs \<and> i < length regions")
      case True
      obtain pc1 run1 where st: "regionStep config (regions ! i) ev (pcs ! i) run = (pc1, run1)"
        by (cases "regionStep config (regions ! i) ev (pcs ! i) run")
      from Cons.prems nf True st
      have "runSchedule config regions ev sched (pcs[i := pc1]) run1 = (pcs', run', rest)" by simp
      from Cons.IH[OF this]
      have rest: "(regionsStep config regions ev)\<^sup>*\<^sup>* (pcs[i := pc1], run1) (pcs', run')" .
      show ?thesis
      proof (cases "finished (pcs ! i)")
        case True
        with st have "pc1 = pcs ! i" "run1 = run" by (simp_all add: finished_step)
        with rest show ?thesis by simp
      next
        case False
        with True st have "regionsStep config regions ev (pcs, run) (pcs[i := pc1], run1)"
          by (intro regionsStep.resume) simp_all
        with rest show ?thesis by (simp add: converse_rtranclp_into_rtranclp)
      qed
    next
      case False
      with Cons.prems nf have "runSchedule config regions ev sched pcs run = (pcs', run', rest)"
        by auto
      from Cons.IH[OF this] show ?thesis .
    qed
  qed
qed

lemma finishRegions_steps:
  "\<forall>pcs'. length pcs = length regions \<longrightarrow> (\<forall>j<i. j < length pcs \<longrightarrow> finished (pcs ! j)) \<longrightarrow>
     finishRegions config regions ev i pcs run = (pcs', run') \<longrightarrow>
     (regionsStep config regions ev)\<^sup>*\<^sup>* (pcs, run) (pcs', run') \<and> list_all finished pcs'"
proof (induction config regions ev i pcs run rule: finishRegions.induct)
  case (1 config regions ev i pcs run)
  show ?case
  proof (intro allI impI)
    fix pcs'
    assume len: "length pcs = length regions" and fin: "\<forall>j<i. j < length pcs \<longrightarrow> finished (pcs ! j)"
      and fr: "finishRegions config regions ev i pcs run = (pcs', run')"
    show "(regionsStep config regions ev)\<^sup>*\<^sup>* (pcs, run) (pcs', run') \<and> list_all finished pcs'"
    proof (cases "i < length pcs \<and> i < length regions")
      case True
      obtain pc1 run1 where rd: "runToDone config (regions ! i) ev (pcs ! i) run = (pc1, run1)"
        by (cases "runToDone config (regions ! i) ev (pcs ! i) run")
      from fr True rd have fr1: "finishRegions config regions ev (Suc i) (pcs[i := pc1]) run1 = (pcs', run')"
        by (subst (asm) finishRegions.simps) simp
      from runToDone_regions[rule_format, of i pcs regions "pcs ! i" "regions ! i" config ev run pc1 run1] True rd
      have a: "(regionsStep config regions ev)\<^sup>*\<^sup>* (pcs, run) (pcs[i := pc1], run1)" and f1: "finished pc1"
        by simp_all
      have fin1: "\<forall>j<Suc i. j < length (pcs[i := pc1]) \<longrightarrow> finished (pcs[i := pc1] ! j)"
        using fin f1 by (auto simp: nth_list_update less_Suc_eq)
      from "1.IH"[OF True rd[symmetric]] len fin1 fr1
      have "(regionsStep config regions ev)\<^sup>*\<^sup>* (pcs[i := pc1], run1) (pcs', run') \<and> list_all finished pcs'"
        by simp
      with rtranclp_trans[of "regionsStep config regions ev", OF a] show ?thesis by blast
    next
      case False
      with fr have "pcs' = pcs" "run' = run" by (simp_all add: finishRegions.simps)
      moreover from False len have "length pcs \<le> i" by simp
      with fin have "list_all finished pcs" by (simp add: list_all_length)
      ultimately show ?thesis by simp
    qed
  qed
qed

subsection \<open>The shape of a region's result\<close>

lemma initialPc_inv: "pcInv config cur ev (initialPc config cur ev)"
  by (simp add: pcInv_def initialPc_def regionResult_def failure_def split: option.splits)

lemma regionStep_inv:
  assumes "pcInv config cur ev pc" and "regionStep config cur ev pc run = (pc', run')"
  shows "pcInv config cur ev pc'"
proof (cases pc)
  case (Searching ts)
  with assms show ?thesis
    by (cases ts)
       (auto simp: pcInv_def regionResult_def failure_def
             split: if_splits option.splits GuardOutcome.splits)
next
  case (LoopHead t attempt lastError)
  with assms show ?thesis
    by (auto simp: pcInv_def regionResult_def failure_def split: if_splits option.splits prod.splits)
next
  case (AfterExit t attempt lastError)
  with assms show ?thesis
    by (auto simp: pcInv_def split: option.splits prod.splits)
next
  case (AfterAction t attempt lastError)
  with assms show ?thesis
    by (auto simp: pcInv_def split: option.splits prod.splits)
next
  case (AfterValidation t attempt lastError)
  with assms show ?thesis
    by (auto simp: pcInv_def regionResult_def split: option.splits prod.splits)
next
  case (Caught t attempt e)
  with assms show ?thesis
    by (auto simp: pcInv_def split: if_splits prod.splits)
next
  case (Exhausted lastError)
  with assms show ?thesis
    by (auto simp: pcInv_def regionResult_def retriesExhausted_def failure_def Let_def
             split: prod.splits option.splits)
next
  case (Finished r)
  with assms show ?thesis by simp
qed

lemma regionsStep_inv:
  assumes "regionsStep config regions ev c c'"
    and "length (fst c) = length regions"
    and "\<forall>i<length regions. pcInv config (regions ! i) ev (fst c ! i)"
  shows "length (fst c') = length regions \<and> (\<forall>i<length regions. pcInv config (regions ! i) ev (fst c' ! i))"
  using assms
proof (induction rule: regionsStep.induct)
  case (resume i pcs run pc' run')
  from resume.prems(2) resume.hyps(2) have "pcInv config (regions ! i) ev (pcs ! i)" by simp
  from regionStep_inv[OF this resume.hyps(4)] have "pcInv config (regions ! i) ev pc'" .
  with resume.prems resume.hyps(1) show ?case by (simp add: nth_list_update)
qed

lemma regionsSteps_inv:
  assumes "(regionsStep config regions ev)\<^sup>*\<^sup>* c c'"
    and "length (fst c) = length regions"
    and "\<forall>i<length regions. pcInv config (regions ! i) ev (fst c ! i)"
  shows "length (fst c') = length regions \<and> (\<forall>i<length regions. pcInv config (regions ! i) ev (fst c' ! i))"
  using assms
proof (induction rule: rtranclp_induct)
  case base
  then show ?case by simp
next
  case (step y z)
  from step.IH[OF step.prems] regionsStep_inv[OF step.hyps(2)] show ?case by blast
qed

lemma runRegions_reach:
  assumes rr: "runRegions config regions ev sched run = (results, run', sched')"
  shows "\<exists>pcs. (regionsStep config regions ev)\<^sup>*\<^sup>*
                  (map (\<lambda>cur. initialPc config cur ev) regions, run) (pcs, run')
               \<and> list_all finished pcs \<and> results = map outcome pcs"
proof -
  let ?init = "map (\<lambda>cur. initialPc config cur ev) regions"
  obtain pcs1 run1 rest where rs: "runSchedule config regions ev sched ?init run = (pcs1, run1, rest)"
    by (metis prod_cases3)
  obtain pcs2 run2 where fr: "finishRegions config regions ev 0 pcs1 run1 = (pcs2, run2)"
    by (metis surj_pair)
  from rr rs fr have res: "results = map outcome pcs2" "run' = run2"
    by (simp_all add: runRegions_def)
  note a = runSchedule_steps[OF rs]
  from regionsSteps_length[OF a] have len: "length pcs1 = length regions" by simp
  from finishRegions_steps[rule_format, of pcs1 regions 0 config ev run1 pcs2 run2] len fr
  have b: "(regionsStep config regions ev)\<^sup>*\<^sup>* (pcs1, run1) (pcs2, run2)" and fin: "list_all finished pcs2"
    by simp_all
  from rtranclp_trans[of "regionsStep config regions ev", OF a b] fin res show ?thesis by blast
qed

lemma finished_outcome:
  "finished pc \<Longrightarrow> \<exists>r. pc = Finished r \<and> outcome pc = Some r"
  by (cases pc) (simp_all add: finished_def outcome_def)

lemma runRegions_results:
  assumes rr: "runRegions config regions ev sched run = (results, run', sched')"
  shows "length results = length regions \<and>
         (\<forall>i<length regions. \<exists>r. results ! i = Some r \<and> regionResult config (regions ! i) ev r)"
proof -
  from runRegions_reach[OF rr] obtain pcs where
    reach: "(regionsStep config regions ev)\<^sup>*\<^sup>* (map (\<lambda>cur. initialPc config cur ev) regions, run) (pcs, run')"
    and fin: "list_all finished pcs" and res: "results = map outcome pcs" by blast
  from regionsSteps_inv[OF reach]
  have len: "length pcs = length regions"
    and inv: "\<forall>i<length regions. pcInv config (regions ! i) ev (pcs ! i)"
    by (simp_all add: initialPc_inv)
  have "\<exists>r. results ! i = Some r \<and> regionResult config (regions ! i) ev r" if i: "i < length regions" for i
  proof -
    from fin i len have "finished (pcs ! i)" by (simp add: list_all_length)
    from finished_outcome[OF this] obtain r where r: "pcs ! i = Finished r" "outcome (pcs ! i) = Some r"
      by blast
    from inv i r(1) have "regionResult config (regions ! i) ev r" by (auto simp: pcInv_def)
    with r(2) res i len show ?thesis by simp
  qed
  with res len show ?thesis by simp
qed

subsection \<open>A region resumed without interruption is \<open>executeTransition\<close>\<close>

lemma runToDone_Finished [simp]: "runToDone config cur ev (Finished r) run = (Finished r, run)"
  by (simp add: runToDone.simps finished_def)

lemma runToDone_Searching:
  "runToDone config cur ev (Searching ts) run =
     (case findTransition_loop ts ev (fst run) of
        None \<Rightarrow> (Finished (failure cur ev
                   (''No valid transition for event \"'' @ ev @ ''\" from state \"'' @ cur @ ''\"'')), run)
      | Some t \<Rightarrow> runToDone config cur ev (LoopHead t 0 None) run)"
proof (induction ts)
  case Nil
  show ?case by (subst runToDone_step) simp
next
  case (Cons t ts)
  show ?case
    by (subst runToDone_step)
       (simp add: Cons.IH split: option.splits GuardOutcome.splits)
qed

lemma runToDone_Exhausted:
  "runToDone config cur ev (Exhausted lastError) run =
     (case retriesExhausted config cur ev lastError run of (r, run') \<Rightarrow> (Finished r, run'))"
  by (subst runToDone_step) (simp split: prod.splits)

text \<open>One attempt, from the loop head to the place the attempt ends.\<close>

lemma runToDone_attempt:
  assumes st: "states config cur = Some state" and le: "attempt \<le> fst (retryDefaults t)"
  shows "runToDone config cur ev (LoopHead t attempt lastError) run =
     (case runAttempt config state cur t run of
        (None, run') \<Rightarrow>
          (Finished \<lparr>success = True, fromState = Single cur, toState = Single (to t),
                     result_event = ev, error = None\<rparr>, run')
      | (Some e, run') \<Rightarrow> runToDone config cur ev (Caught t attempt e) run')"
proof -
  obtain e1 run1 where h1: "callHook (ExitHook cur) (onExit state) run = (e1, run1)"
    by (metis surj_pair)
  obtain e2 run2 where h2: "callHook (ActionHook (event t) (to t)) (action t) run1 = (e2, run2)"
    by (metis surj_pair)
  show ?thesis
  proof (cases e1)
    case (Some e)
    with st le h1 show ?thesis
      by (subst runToDone_step) (simp add: runAttempt_def)
  next
    case None
    note n1 = this
    have s1: "runToDone config cur ev (LoopHead t attempt lastError) run =
              runToDone config cur ev (AfterExit t attempt lastError) run1"
      using st le h1 None by (subst runToDone_step) simp
    show ?thesis
    proof (cases e2)
      case (Some e)
      with h2 have "runToDone config cur ev (AfterExit t attempt lastError) run1 =
                    runToDone config cur ev (Caught t attempt e) run2"
        by (subst runToDone_step) simp
      with s1 h1 n1 h2 Some show ?thesis by (simp add: runAttempt_def)
    next
      case None
      note n2 = this
      with h2 have s2: "runToDone config cur ev (AfterExit t attempt lastError) run1 =
                    runToDone config cur ev (AfterAction t attempt lastError) run2"
        by (subst runToDone_step) simp
      show ?thesis
      proof (cases "states config (to t)")
        case None
        then have "runToDone config cur ev (AfterAction t attempt lastError) run2 =
              runToDone config cur ev (Caught t attempt (''Target state \"'' @ to t @ ''\" not found'')) run2"
          by (subst runToDone_step) simp
        with s1 s2 h1 n1 h2 n2 None show ?thesis by (simp add: runAttempt_def)
      next
        case (Some targetState)
        obtain e3 run3 where h3: "callValidation (to t) (validation targetState) run2 = (e3, run3)"
          by (metis surj_pair)
        obtain e4 run4 where h4: "callHook (EntryHook (to t)) (onEntry targetState) run3 = (e4, run4)"
          by (metis surj_pair)
        show ?thesis
        proof (cases e3)
          case (Some e)
          with h3 \<open>states config (to t) = Some targetState\<close>
          have "runToDone config cur ev (AfterAction t attempt lastError) run2 =
                runToDone config cur ev (Caught t attempt e) run3"
            by (subst runToDone_step) simp
          with s1 s2 h1 n1 h2 n2 \<open>states config (to t) = Some targetState\<close> h3 Some
          show ?thesis by (simp add: runAttempt_def)
        next
          case None
          with h3 \<open>states config (to t) = Some targetState\<close>
          have s3: "runToDone config cur ev (AfterAction t attempt lastError) run2 =
                runToDone config cur ev (AfterValidation t attempt lastError) run3"
            by (subst runToDone_step) simp
          have s4: "runToDone config cur ev (AfterValidation t attempt lastError) run3 =
                (case e4 of
                   None \<Rightarrow> (Finished \<lparr>success = True, fromState = Single cur, toState = Single (to t),
                              result_event = ev, error = None\<rparr>, run4)
                 | Some e \<Rightarrow> runToDone config cur ev (Caught t attempt e) run4)"
            using h4 \<open>states config (to t) = Some targetState\<close>
            by (subst runToDone_step) (simp split: option.splits)
          from s1 s2 s3 s4 h1 n1 h2 n2 \<open>states config (to t) = Some targetState\<close> h3 None h4
          show ?thesis by (simp add: runAttempt_def split: option.splits)
        qed
      qed
    qed
  qed
qed

lemma runToDone_Caught:
  "retryDefaults t = (maxA, strategy, delay) \<Longrightarrow>
   runToDone config cur ev (Caught t attempt e) run =
     (if attempt < maxA
      then runToDone config cur ev (LoopHead t (attempt + 1) (Some e))
             (fst run, snd run @ [Delay (backoffDelay strategy delay attempt)])
      else runToDone config cur ev (Exhausted (Some e)) run)"
  by (subst runToDone_step) simp

lemma runToDone_LoopHead_over:
  "states config cur = Some state \<Longrightarrow> \<not> attempt \<le> fst (retryDefaults t) \<Longrightarrow>
   runToDone config cur ev (LoopHead t attempt lastError) run =
     runToDone config cur ev (Exhausted lastError) run"
  by (subst runToDone_step) simp

lemma runToDone_retryLoop:
  "states config cur = Some state \<Longrightarrow> retryDefaults t = (maxA, strategy, delay) \<Longrightarrow>
   runToDone config cur ev (LoopHead t attempt lastError) run =
     (case retryLoop config state cur t maxA strategy delay attempt lastError run of
        (True, lastError', run') \<Rightarrow>
          (Finished \<lparr>success = True, fromState = Single cur, toState = Single (to t),
                     result_event = ev, error = None\<rparr>, run')
      | (False, lastError', run') \<Rightarrow>
          (case retriesExhausted config cur ev lastError' run' of (r, run'') \<Rightarrow> (Finished r, run'')))"
proof (induction config state cur t maxA strategy delay attempt lastError run rule: retryLoop.induct)
  case (1 config state cur t maxA strategy delay attempt lastError run)
  note st = "1.prems"(1) and rd = "1.prems"(2)
  show ?case
  proof (cases "attempt \<le> maxA")
    case False
    with rd have "\<not> attempt \<le> fst (retryDefaults t)" by simp
    from runToDone_LoopHead_over[OF st this] False show ?thesis
      by (subst retryLoop.simps) (simp add: runToDone_Exhausted)
  next
    case True
    with rd have le: "attempt \<le> fst (retryDefaults t)" by simp
    obtain res run1 where ra: "runAttempt config state cur t run = (res, run1)"
      by (metis surj_pair)
    show ?thesis
    proof (cases res)
      case None
      with ra True runToDone_attempt[OF st le, of ev lastError run] show ?thesis
        by (subst retryLoop.simps) simp
    next
      case (Some e)
      let ?run2 = "if attempt < maxA
                then (fst run1, snd run1 @ [Delay (backoffDelay strategy delay attempt)])
                else run1"
      have a: "runToDone config cur ev (LoopHead t attempt lastError) run =
               runToDone config cur ev (Caught t attempt e) run1"
        using ra Some runToDone_attempt[OF st le, of ev lastError run] by simp
      have ih: "runToDone config cur ev (LoopHead t (attempt + 1) (Some e)) ?run2 =
         (case retryLoop config state cur t maxA strategy delay (attempt + 1) (Some e) ?run2 of
            (True, lastError', run') \<Rightarrow>
              (Finished \<lparr>success = True, fromState = Single cur, toState = Single (to t),
                         result_event = ev, error = None\<rparr>, run')
          | (False, lastError', run') \<Rightarrow>
              (case retriesExhausted config cur ev lastError' run' of (r, run'') \<Rightarrow> (Finished r, run'')))"
        using "1.IH"[OF True ra[symmetric]] Some st rd by simp
      have unfold: "retryLoop config state cur t maxA strategy delay attempt lastError run =
                    retryLoop config state cur t maxA strategy delay (attempt + 1) (Some e) ?run2"
        using True ra Some by (subst retryLoop.simps) simp
      show ?thesis
      proof (cases "attempt < maxA")
        case lt: True
        with a runToDone_Caught[OF rd, of config cur ev attempt e run1] ih unfold
        show ?thesis by simp
      next
        case ge: False
        with True have eq: "attempt = maxA" by simp
        have over: "retryLoop config state cur t maxA strategy delay (attempt + 1) (Some e) run1 =
                    (False, Some e, run1)"
          using eq by (subst retryLoop.simps) simp
        from a runToDone_Caught[OF rd, of config cur ev attempt e run1] ge unfold over
        show ?thesis by (simp add: runToDone_Exhausted)
      qed
    qed
  qed
qed

lemma runToDone_executeTransition:
  "runToDone config cur ev (initialPc config cur ev) run =
     (Finished (fst (executeTransition config cur ev run)), snd (executeTransition config cur ev run))"
proof (cases "states config cur")
  case None
  then show ?thesis by (simp add: initialPc_def executeTransition_def)
next
  case (Some state)
  show ?thesis
  proof (cases "findTransition_loop (getTransitions config cur) ev (fst run)")
    case None
    with Some show ?thesis
      by (simp add: initialPc_def executeTransition_def findTransition_def runToDone_Searching)
  next
    case found: (Some t)
    obtain maxA strategy delay where rd: "retryDefaults t = (maxA, strategy, delay)"
      by (metis prod_cases3)
    from Some found rd runToDone_retryLoop[OF Some rd, of ev 0 None run] show ?thesis
      by (simp add: initialPc_def executeTransition_def findTransition_def runToDone_Searching
               split: prod.splits bool.splits)
  qed
qed

subsection \<open>A single region, and the merge of the results\<close>

lemma runSchedule_single:
  "runSchedule config [cur] ev sched [pc] run = (pcs', run', rest) \<Longrightarrow>
     \<exists>pc'. pcs' = [pc'] \<and> runToDone config cur ev pc' run' = runToDone config cur ev pc run"
proof (induction sched arbitrary: pc run)
  case Nil
  then show ?case by auto
next
  case (Cons i sched)
  show ?case
  proof (cases "finished pc")
    case True
    with Cons.prems show ?thesis by auto
  next
    case nf: False
    show ?thesis
    proof (cases i)
      case 0
      obtain pc1 run1 where st: "regionStep config cur ev pc run = (pc1, run1)"
        by (metis surj_pair)
      from Cons.prems nf 0 st have "runSchedule config [cur] ev sched [pc1] run1 = (pcs', run', rest)"
        by simp
      from Cons.IH[OF this] obtain pc' where "pcs' = [pc']"
        "runToDone config cur ev pc' run' = runToDone config cur ev pc1 run1" by blast
      with st runToDone_step[of config cur ev pc run] show ?thesis by simp
    next
      case (Suc k)
      with Cons.prems nf have "runSchedule config [cur] ev sched [pc] run = (pcs', run', rest)"
        by simp
      from Cons.IH[OF this] show ?thesis .
    qed
  qed
qed

lemma runRegions_single_region:
  assumes "runRegions config [cur] ev sched run = (results, run', sched')"
  shows "results = [Some (fst (executeTransition config cur ev run))]"
    and "run' = snd (executeTransition config cur ev run)"
proof -
  obtain pcs1 run1 rest where
    rs: "runSchedule config [cur] ev sched [initialPc config cur ev] run = (pcs1, run1, rest)"
    by (metis prod_cases3)
  from runSchedule_single[OF rs] obtain pc1 where pc1: "pcs1 = [pc1]"
    "runToDone config cur ev pc1 run1 = runToDone config cur ev (initialPc config cur ev) run"
    by blast
  from pc1(2) have rd: "runToDone config cur ev pc1 run1 =
     (Finished (fst (executeTransition config cur ev run)), snd (executeTransition config cur ev run))"
    by (simp add: runToDone_executeTransition)
  have fr: "finishRegions config [cur] ev 0 [pc1] run1 =
     ([Finished (fst (executeTransition config cur ev run))], snd (executeTransition config cur ev run))"
    by (subst finishRegions.simps, simp add: rd, subst finishRegions.simps, simp)
  from assms rs pc1(1) fr
  show "results = [Some (fst (executeTransition config cur ev run))]"
    and "run' = snd (executeTransition config cur ev run)"
    by (simp_all add: runRegions_def outcome_def)
qed

lemma mergeRegions_any:
  assumes "length ts = length ss"
    and "\<forall>t\<in>set ts. \<exists>r. t = Some r \<and> (success r \<longrightarrow> (\<exists>target. toState r = Single target))"
  shows "\<exists>new. mergeRegions ss ts = Some new \<and> length new = length ss \<and>
           (\<forall>i<length ss.
              (succeeded (ts ! i) \<longrightarrow> map_option toState (ts ! i) = Some (Single (new ! i))) \<and>
              (\<not> succeeded (ts ! i) \<longrightarrow> new ! i = ss ! i))"
  using assms
proof (induction ss arbitrary: ts)
  case Nil
  then show ?case by simp
next
  case (Cons s ss)
  from Cons.prems(1) obtain t ts' where ts: "ts = t # ts'"
    by (cases ts) simp_all
  from Cons.prems ts obtain r where r: "t = Some r" "success r \<longrightarrow> (\<exists>target. toState r = Single target)"
    by auto
  from Cons.prems ts have len: "length ts' = length ss"
    and single: "\<forall>t\<in>set ts'. \<exists>r. t = Some r \<and> (success r \<longrightarrow> (\<exists>target. toState r = Single target))"
    by simp_all
  from Cons.IH[OF len single] obtain new where new: "mergeRegions ss ts' = Some new"
    "length new = length ss"
    "\<And>i. i < length ss \<Longrightarrow>
        (succeeded (ts' ! i) \<longrightarrow> map_option toState (ts' ! i) = Some (Single (new ! i))) \<and>
        (\<not> succeeded (ts' ! i) \<longrightarrow> new ! i = ss ! i)" by blast
  define x where "x = (if success r then (case toState r of Single target \<Rightarrow> target | Regions n \<Rightarrow> s) else s)"
  have hd: "(success r \<longrightarrow> toState r = Single x) \<and> (\<not> success r \<longrightarrow> x = s)"
  proof (cases "success r")
    case True
    with r(2) obtain target where "toState r = Single target" by auto
    with True show ?thesis by (simp add: x_def)
  next
    case False
    then show ?thesis by (simp add: x_def)
  qed
  have m: "mergeRegions (s # ss) ts = Some (x # new)"
  proof (cases "success r")
    case True
    with hd have "toState r = Single x" by simp
    with True new(1) ts r(1) show ?thesis by simp
  next
    case False
    with hd new(1) ts r(1) show ?thesis by simp
  qed
  have "(succeeded (ts ! i) \<longrightarrow> map_option toState (ts ! i) = Some (Single ((x # new) ! i))) \<and>
        (\<not> succeeded (ts ! i) \<longrightarrow> (x # new) ! i = (s # ss) ! i)" if "i < length (s # ss)" for i
  proof (cases i)
    case 0
    with hd ts r(1) show ?thesis by (simp add: succeeded_def)
  next
    case (Suc k)
    with that have "k < length ss" by simp
    from new(3)[OF this] Suc ts show ?thesis by simp
  qed
  with m new(2) show ?case by simp
qed

lemma filter_succeeded_empty:
  "filter succeeded results = [] \<longleftrightarrow> \<not> (\<exists>i<length results. succeeded (results ! i))"
  by (simp add: filter_empty_conv all_set_conv_all_nth)

lemma broadcast_result:
  assumes cs: "currentState flowState = Regions regions"
    and tg: "targetRegion options = None"
    and rr: "runRegions (engine_config eng) regions (opt_event options) sched run = (results, run', sched')"
  shows "\<exists>r newStates. executeParallelTransition eng flowState options sched run = (Inr r, run', sched') \<and>
        fromState r = Regions regions \<and> toState r = Regions newStates \<and>
        result_event r = opt_event options \<and> length newStates = length regions \<and>
        (\<forall>i<length regions. \<not> succeeded (results ! i) \<longrightarrow> newStates ! i = regions ! i) \<and>
        (\<forall>i<length regions. succeeded (results ! i) \<longrightarrow>
            map_option toState (results ! i) = Some (Single (newStates ! i))) \<and>
        (success r \<longleftrightarrow> (\<exists>i<length regions. succeeded (results ! i))) \<and>
        (\<not> success r \<longrightarrow> error r = Some ''No region accepted the event'' \<and> newStates = regions)"
proof -
  from runRegions_results[OF rr]
  have len: "length results = length regions"
    and shape: "\<forall>i<length regions. \<exists>r. results ! i = Some r \<and>
                  regionResult (engine_config eng) (regions ! i) (opt_event options) r"
    by simp_all
  have single: "\<forall>t\<in>set results. \<exists>r. t = Some r \<and> (success r \<longrightarrow> (\<exists>target. toState r = Single target))"
  proof
    fix t assume "t \<in> set results"
    then obtain i where i: "i < length results" "t = results ! i" by (metis in_set_conv_nth)
    with shape len obtain r where "t = Some r"
      "regionResult (engine_config eng) (regions ! i) (opt_event options) r" by auto
    then show "\<exists>r. t = Some r \<and> (success r \<longrightarrow> (\<exists>target. toState r = Single target))"
      by (auto simp: regionResult_def split: if_splits)
  qed
  from mergeRegions_any[OF len single]
  obtain new where new: "mergeRegions regions results = Some new" "length new = length regions"
    "\<forall>i<length regions.
        (succeeded (results ! i) \<longrightarrow> map_option toState (results ! i) = Some (Single (new ! i))) \<and>
        (\<not> succeeded (results ! i) \<longrightarrow> new ! i = regions ! i)" by blast
  show ?thesis
  proof (cases "filter succeeded results = []")
    case True
    then have none: "\<not> (\<exists>i<length regions. succeeded (results ! i))"
      using len by (simp add: filter_succeeded_empty)
    have "executeParallelTransition eng flowState options sched run =
        (Inr \<lparr>success = False, fromState = Regions regions, toState = Regions regions,
                       result_event = opt_event options,
                       error = Some ''No region accepted the event''\<rparr>, run', sched')"
      using cs tg rr True by (simp add: executeParallelTransition_def)
    with none show ?thesis by simp
  next
    case False
    then have some: "\<exists>i<length regions. succeeded (results ! i)"
      using len by (simp add: filter_succeeded_empty)
    have "executeParallelTransition eng flowState options sched run =
        (Inr \<lparr>success = True, fromState = Regions regions, toState = Regions new,
                            result_event = opt_event options, error = None\<rparr>, run', sched')"
      using cs tg rr False new(1) by (simp add: executeParallelTransition_def)
    with some new(2,3) show ?thesis by simp
  qed
qed

lemma executeCore_parallel_length:
  assumes st: "get (storage w) fid = Some stored" and act: "status stored = Active"
    and cs: "currentState stored = Regions regions" and tg: "targetRegion options = None"
  shows "\<exists>res w' regions'. executeCore eng fid options now w = (Inr res, w') \<and>
           currentState (exec_state res) = Regions regions' \<and> length regions' = length regions \<and>
           get (storage w') (flowId stored) = Some (exec_state res)"
proof -
  define flowState where "flowState = (case data options of
                                None \<Rightarrow> stored
                              | Some d \<Rightarrow> stored\<lparr>flow_context := flow_context stored ++ d\<rparr>)"
  have fs: "currentState flowState = Regions regions" "flowId flowState = flowId stored"
    using cs by (simp_all add: flowState_def split: option.splits)
  obtain results run' sched' where rr:
    "runRegions (engine_config eng) regions (opt_event options) (schedule w)
       (flow_context flowState, trace w) = (results, run', sched')"
    by (metis prod_cases3)
  from broadcast_result[OF fs(1) tg rr]
  obtain r newStates where r:
    "executeParallelTransition eng flowState options (schedule w) (flow_context flowState, trace w)
       = (Inr r, run', sched')"
    "toState r = Regions newStates" "length newStates = length regions"
    by blast
  show ?thesis
  proof (cases "success r")
    case True
    define flowState2 where "flowState2 = flowState
                       \<lparr>flow_context := fst run', updatedAt := now,
                        history := history flowState @
                          [\<lparr>history_from = fromState r, history_to = toState r,
                            history_timestamp = now, history_event = Some (opt_event options)\<rparr>],
                        currentState := toState r\<rparr>"
    define flowState3 where "flowState3 = (if isFlowComplete (engine_config eng) flowState2
                      then flowState2\<lparr>status := Completed\<rparr> else flowState2)"
    have tt: "tryTransition eng flowState options now (trace w) (schedule w)
                = (Inr r, flowState3, snd run', sched')"
      using fs(1) r(1) True
      by (simp add: tryTransition_def Let_def flowState3_def flowState2_def)
    have core: "executeCore eng fid options now w =
        (Inr \<lparr>exec_success = success r, exec_state = flowState3,
                          exec_transition = r, compensated = Some False\<rparr>,
                     w\<lparr>storage := save flowState3 (storage w), trace := snd run', schedule := sched'\<rparr>)"
      using st act tt by (simp add: executeCore_def flowState_def[symmetric])
    have "currentState flowState3 = Regions newStates" "flowId flowState3 = flowId stored"
      using r(2) fs(2) by (simp_all add: flowState3_def flowState2_def)
    with core r(3) show ?thesis by (simp add: get_save)
  next
    case False
    define thrown where "thrown = (case error r of
                        None \<Rightarrow> ''Transition failed''
                      | Some m \<Rightarrow> if m = [] then ''Transition failed'' else m)"
    define flowState1 where "flowState1 = flowState\<lparr>flow_context := fst run', updatedAt := now\<rparr>"
    have tt: "tryTransition eng flowState options now (trace w) (schedule w)
                = (Inl thrown, flowState1, snd run', sched')"
      using fs(1) r(1) False
      by (simp add: tryTransition_def Let_def flowState1_def thrown_def)
    obtain d fs2 w2 where
      c: "compensate flowState1 thrown now (w\<lparr>trace := snd run', schedule := sched'\<rparr>) = (d, fs2, w2)"
      by (metis prod_cases3)
    have core: "executeCore eng fid options now w =
        (Inr \<lparr>exec_success = False, exec_state = fs2,
                               exec_transition =
                                 \<lparr>success = False, fromState = currentState fs2,
                                  toState = currentState fs2,
                                  result_event = opt_event options, error = Some thrown\<rparr>,
                               compensated = Some d\<rparr>,
                          w2\<lparr>storage := save fs2 (storage w2)\<rparr>)"
      using st act tt c by (simp add: executeCore_def flowState_def[symmetric])
    from compensate_frame(1,2)[OF c] fs
    have "currentState fs2 = Regions regions" "flowId fs2 = flowId stored"
      by (simp_all add: flowState1_def)
    with core show ?thesis by (simp add: get_save)
  qed
qed

subsection \<open>The broadcast\<close>

text \<open>
  Claim C4. For a flow whose current state is a list of region states and an event
  sent without \<open>targetRegion\<close>, whatever the order in which the runtime resumes the
  regions' calls:
  \<^item> there is one result per region;
  \<^item> the results are those of an interleaved run of the regions' calls on the shared
    context, from the context of the flow to the one the dispatch leaves, in which
    every call has returned;
  \<^item> the result of a region starts in that region's state and is either a success that
    leads to the target of one of the transitions of that state for the event, or a
    failure that stays in the state;
  \<^item> with a single region the result is that of \<open>executeTransition\<close>;
  \<^item> the dispatch does not throw; the new list has the length of the old one, keeps
    the entry of every region whose transition failed and holds the target of every
    region whose transition succeeded; the outcome is a success exactly when some
    region's transition succeeded, and otherwise a failure with the error
    \<open>No region accepted the event\<close> and the list unchanged;
  \<^item> after \<open>executeCore\<close> on such an active flow the stored current state is again a
    list of the same length.
\<close>

theorem broadcast_dispatch:
  assumes "currentState flowState = Regions regions" and "targetRegion options = None"
    and "runRegions (engine_config eng) regions (opt_event options) sched run = (results, run', sched')"
  shows "length results = length regions \<and>
     (\<exists>pcs. (regionsStep (engine_config eng) regions (opt_event options))\<^sup>*\<^sup>*
              (map (\<lambda>cur. initialPc (engine_config eng) cur (opt_event options)) regions, run)
              (pcs, run')
            \<and> list_all finished pcs \<and> results = map outcome pcs) \<and>
     (\<forall>i<length regions. \<exists>r. results ! i = Some r \<and>
          regionResult (engine_config eng) (regions ! i) (opt_event options) r) \<and>
     (\<forall>cur. regions = [cur] \<longrightarrow>
          results = [Some (fst (executeTransition (engine_config eng) cur (opt_event options) run))] \<and>
          run' = snd (executeTransition (engine_config eng) cur (opt_event options) run)) \<and>
     (\<exists>r newStates.
        executeParallelTransition eng flowState options sched run = (Inr r, run', sched') \<and>
        fromState r = Regions regions \<and> toState r = Regions newStates \<and>
        result_event r = opt_event options \<and> length newStates = length regions \<and>
        (\<forall>i<length regions. \<not> succeeded (results ! i) \<longrightarrow> newStates ! i = regions ! i) \<and>
        (\<forall>i<length regions. succeeded (results ! i) \<longrightarrow>
            map_option toState (results ! i) = Some (Single (newStates ! i))) \<and>
        (success r \<longleftrightarrow> (\<exists>i<length regions. succeeded (results ! i))) \<and>
        (\<not> success r \<longrightarrow> error r = Some ''No region accepted the event'' \<and> newStates = regions)) \<and>
     (\<forall>fid now w stored.
        get (storage w) fid = Some stored \<and> status stored = Active \<and>
        currentState stored = Regions regions \<longrightarrow>
        (\<exists>res w' regions'. executeCore eng fid options now w = (Inr res, w') \<and>
           currentState (exec_state res) = Regions regions' \<and> length regions' = length regions \<and>
           get (storage w') (flowId stored) = Some (exec_state res)))"
    (is "?len \<and> ?reach \<and> ?shape \<and> ?single \<and> ?dispatch \<and> ?stored")
proof -
  from runRegions_results[OF assms(3)] have len: ?len and shape: ?shape
    by simp_all
  have reach: ?reach
    by (rule runRegions_reach[OF assms(3)])
  have single: ?single
  proof (intro allI impI)
    fix cur
    assume "regions = [cur]"
    with assms(3)
    have "runRegions (engine_config eng) [cur] (opt_event options) sched run = (results, run', sched')"
      by simp
    from runRegions_single_region[OF this]
    show "results = [Some (fst (executeTransition (engine_config eng) cur (opt_event options) run))] \<and>
          run' = snd (executeTransition (engine_config eng) cur (opt_event options) run)"
      by (rule conjI)
  qed
  have dispatch: ?dispatch
    by (rule broadcast_result[OF assms])
  have "\<exists>res w' regions'. executeCore eng fid options now w = (Inr res, w') \<and>
           currentState (exec_state res) = Regions regions' \<and> length regions' = length regions \<and>
           get (storage w') (flowId stored) = Some (exec_state res)"
    if "get (storage w) fid = Some stored" "status stored = Active" "currentState stored = Regions regions"
    for fid now w stored
    using executeCore_parallel_length[OF that assms(2)] .
  then have stored: ?stored by blast
  from len reach shape single dispatch stored show ?thesis by (intro conjI)
qed

theorem broadcast_dispatch_witness:
  "fst (executeParallelTransition interferingEngine parallelFlow (broadcast ''GO'') [0, 1]
          (Map.empty, [])) =
     Inr \<lparr>success = True, fromState = Regions [''a'', ''x''], toState = Regions [''b'', ''x''],
          result_event = ''GO'', error = None\<rparr>
   \<and> (\<exists>r newStates results.
        fst (executeParallelTransition interferingEngine parallelFlow (broadcast ''GO'') [0, 1]
               (Map.empty, [])) = Inr r \<and>
        toState r = Regions newStates \<and> length newStates = length [''a'', ''x''] \<and>
        length results = length [''a'', ''x''] \<and>
        (success r \<longleftrightarrow> (\<exists>i<length [''a'', ''x'']. succeeded (results ! i))))"
proof -
  let ?rr = "runRegions (engine_config interferingEngine) [''a'', ''x'']
               (opt_event (broadcast ''GO'')) [0, 1] (Map.empty, [])"
  have cs: "currentState parallelFlow = Regions [''a'', ''x'']"
    by (simp add: parallelFlow_def newFlow_def)
  have tg: "targetRegion (broadcast ''GO'') = None"
    by (simp add: broadcast_def)
  have rr: "?rr = (fst ?rr, fst (snd ?rr), snd (snd ?rr))"
    by simp
  have direct: "fst (executeParallelTransition interferingEngine parallelFlow (broadcast ''GO'') [0, 1]
          (Map.empty, [])) =
     Inr \<lparr>success = True, fromState = Regions [''a'', ''x''], toState = Regions [''b'', ''x''],
          result_event = ''GO'', error = None\<rparr>"
    by (simp add: parallel_defs machine_defs example_defs)
  from broadcast_dispatch[OF cs tg rr]
  have "length (fst ?rr) = length [''a'', ''x'']"
    and "\<exists>r newStates.
        executeParallelTransition interferingEngine parallelFlow (broadcast ''GO'') [0, 1]
          (Map.empty, []) = (Inr r, fst (snd ?rr), snd (snd ?rr)) \<and>
        toState r = Regions newStates \<and> length newStates = length [''a'', ''x''] \<and>
        (success r \<longleftrightarrow> (\<exists>i<length [''a'', ''x'']. succeeded (fst ?rr ! i)))"
    by blast+
  then have "\<exists>r newStates results.
        fst (executeParallelTransition interferingEngine parallelFlow (broadcast ''GO'') [0, 1]
               (Map.empty, [])) = Inr r \<and>
        toState r = Regions newStates \<and> length newStates = length [''a'', ''x''] \<and>
        length results = length [''a'', ''x''] \<and>
        (success r \<longleftrightarrow> (\<exists>i<length [''a'', ''x'']. succeeded (results ! i)))"
    by (metis fst_conv)
  with direct show ?thesis by (rule conjI)
qed

text \<open>
  The order matters for the regions that accept: when the guard of region \<open>x\<close> is read
  before the action of region \<open>a\<close> has set the flag, region \<open>x\<close> stays; when the call of
  region \<open>a\<close> returns first, region \<open>x\<close> moves too.
\<close>

lemma broadcast_order_matters:
  "fst (executeParallelTransition interferingEngine parallelFlow (broadcast ''GO'') [0, 1]
          (Map.empty, [])) =
     Inr \<lparr>success = True, fromState = Regions [''a'', ''x''], toState = Regions [''b'', ''x''],
          result_event = ''GO'', error = None\<rparr>
   \<and> fst (executeParallelTransition interferingEngine parallelFlow (broadcast ''GO'') []
          (Map.empty, [])) =
     Inr \<lparr>success = True, fromState = Regions [''a'', ''x''], toState = Regions [''b'', ''y''],
          result_event = ''GO'', error = None\<rparr>"
  by (simp add: parallel_defs machine_defs example_defs)

text \<open>No region of the example has a transition for an unknown event.\<close>

lemma broadcast_none_accepts:
  "fst (executeParallelTransition parallelEngine parallelFlow (broadcast ''UNKNOWN'') sched
          (Map.empty, [])) =
     Inr \<lparr>success = False, fromState = Regions [''a'', ''x''], toState = Regions [''a'', ''x''],
           result_event = ''UNKNOWN'', error = Some ''No region accepted the event''\<rparr>"
proof -
  let ?rr = "runRegions (engine_config parallelEngine) [''a'', ''x'']
               (opt_event (broadcast ''UNKNOWN'')) sched (Map.empty, [])"
  have cs: "currentState parallelFlow = Regions [''a'', ''x'']"
    by (simp add: parallelFlow_def newFlow_def)
  have tg: "targetRegion (broadcast ''UNKNOWN'') = None"
    by (simp add: broadcast_def)
  have rr: "?rr = (fst ?rr, fst (snd ?rr), snd (snd ?rr))"
    by simp
  from runRegions_results[OF rr]
  have shape: "\<forall>i<length [''a'', ''x'']. \<exists>r. fst ?rr ! i = Some r \<and>
          regionResult (engine_config parallelEngine) ([''a'', ''x''] ! i)
            (opt_event (broadcast ''UNKNOWN'')) r"
    by blast
  have none: "\<not> succeeded (fst ?rr ! i)" if "i < length [''a'', ''x'']" for i
  proof -
    from shape that obtain r where r: "fst ?rr ! i = Some r"
      "regionResult (engine_config parallelEngine) ([''a'', ''x''] ! i)
            (opt_event (broadcast ''UNKNOWN'')) r" by blast
    from that have "i = 0 \<or> i = 1" by auto
    with r(2) have "\<not> success r"
      by (auto simp: regionResult_def machine_defs example_defs split: if_splits)
    with r(1) show ?thesis by (simp add: succeeded_def)
  qed
  from broadcast_result[OF cs tg rr] none
  show ?thesis by (auto simp: broadcast_def)
qed

section \<open>Idempotent execute\<close>

lemma execute_replay:
  assumes "idempotencyKey options = Some key" "key \<noteq> []"
    "getFlowIdByIdempotencyKey (storage w) key = Some bound"
    "get (storage w) fid = Some flowState"
  shows "execute eng fid options now w = (Inr (replayResult flowState (opt_event options)), w)"
  using assms by (simp add: execute_def checkIdempotencyKey_def)

lemma execute_missing:
  assumes "idempotencyKey options = Some key" "key \<noteq> []"
    "getFlowIdByIdempotencyKey (storage w) key = Some bound"
    "get (storage w) fid = None"
  shows "execute eng fid options now w = (Inl (notFound fid), w)"
  using assms by (simp add: execute_def checkIdempotencyKey_def executeWithMiddleware_def executeCore_def)

lemma executeCore_preserves: "preservesBindings (executeCore eng fid options now)"
  unfolding preservesBindings_def
  using executeCore_frame by (metis (no_types))

lemma dispatch_preserves:
  assumes "\<forall>m\<in>set ms. respectful m" "preservesBindings core"
  shows "preservesBindings (dispatch ms mc core)"
  using assms by (induction ms) (simp_all add: respectful_def)

lemma executeWithMiddleware_preserves:
  assumes "\<forall>m\<in>set (middlewares eng). respectful m"
  shows "preservesBindings (executeWithMiddleware eng fid options now)"
proof -
  have "preservesBindings (dispatch (middlewares eng) mc (executeCore eng fid options now))" for mc
    using assms executeCore_preserves[of eng fid options now] by (rule dispatch_preserves)
  then show ?thesis
    unfolding preservesBindings_def executeWithMiddleware_def
    by (auto split: option.splits)
qed

lemma execute_first:
  assumes mw: "\<forall>m\<in>set (middlewares eng). respectful m"
    and key: "idempotencyKey options = Some key" "key \<noteq> []"
    and fid: "fid \<noteq> []" and ex: "get (storage w) fid \<noteq> None"
    and run: "execute eng fid options now w = (r, w')"
  shows "getFlowIdByIdempotencyKey (storage w') key \<noteq> None \<and> get (storage w') fid \<noteq> None"
proof (cases "getFlowIdByIdempotencyKey (storage w) key")
  case (Some bound)
  from ex obtain flowState where "get (storage w) fid = Some flowState" by auto
  from execute_replay[OF key Some this, of eng now] run have "w' = w" by simp
  with Some ex show ?thesis by simp
next
  case None
  let ?w1 = "w\<lparr>storage := saveIdempotencyKey key fid (storage w)\<rparr>"
  obtain step where step: "step = (if middlewares eng \<noteq> [] then executeWithMiddleware eng fid options now
               else executeCore eng fid options now)" by simp
  from None key run have core: "step ?w1 = (r, w')"
    by (simp add: execute_def checkIdempotencyKey_def step split: if_splits)
  have p: "preservesBindings step"
    using executeWithMiddleware_preserves[OF mw, of fid options now]
      executeCore_preserves[of eng fid options now] by (simp add: step)
  have "getFlowIdByIdempotencyKey (storage ?w1) key \<noteq> None"
    using fid by (simp add: keys_saveKey)
  moreover have "get (storage ?w1) fid \<noteq> None"
    using ex by (simp add: get_saveKey)
  ultimately show ?thesis
    using p core unfolding preservesBindings_def by blast
qed

lemma audit_respectful: "respectful auditMiddleware"
  unfolding respectful_def preservesBindings_def auditMiddleware_def by simp

lemma rejectLarge_respectful: "respectful rejectLargeMiddleware"
  unfolding respectful_def preservesBindings_def rejectLargeMiddleware_def
  by (auto split: option.splits if_splits)

lemma executeSeq_replay:
  assumes "key \<noteq> []" "getFlowIdByIdempotencyKey (storage w) key = Some bound"
    "get (storage w) fid = Some flowState"
    "\<forall>call\<in>set calls. idempotencyKey (fst call) = Some key"
  shows "executeSeq eng fid calls w =
           (map (\<lambda>call. Inr (replayResult flowState (opt_event (fst call)))) calls, w)"
  using assms(4)
proof (induction calls)
  case Nil
  then show ?case by simp
next
  case (Cons call calls)
  then have k: "idempotencyKey (fst call) = Some key" by simp
  from execute_replay[OF k assms(1,2,3), of eng "snd call"] Cons show ?case by simp
qed

text \<open>
  Claim C3, as the code has it. For a flow that exists, a non-empty flow id and a
  non-empty key, with middleware that neither removes flows nor unbinds keys: after the
  first call with the key, any number of further calls with the same key leave the
  world, and so the flow's current state, history, context and status, exactly as the
  first call left it, and each of them returns a success whose state is the stored flow
  and whose transition goes from the flow's current state to itself.
\<close>

theorem execute_idempotent:
  assumes "\<forall>m\<in>set (middlewares eng). respectful m" and "fid \<noteq> []" and "key \<noteq> []"
    and "get (storage w) fid \<noteq> None"
    and "idempotencyKey options = Some key"
    and "\<forall>call\<in>set later. idempotencyKey (fst call) = Some key"
    and "execute eng fid options now w = (r1, w1)"
  shows "snd (executeSeq eng fid ((options, now) # later) w) = w1 \<and>
     length (fst (executeSeq eng fid ((options, now) # later) w)) = Suc (length later) \<and>
     hd (fst (executeSeq eng fid ((options, now) # later) w)) = r1 \<and>
     (\<exists>flowState. get (storage w1) fid = Some flowState \<and>
        (\<forall>i<length later.
           fst (executeSeq eng fid ((options, now) # later) w) ! Suc i =
             Inr \<lparr>exec_success = True, exec_state = flowState,
                   exec_transition =
                     \<lparr>success = True, fromState = currentState flowState,
                      toState = currentState flowState,
                      result_event = opt_event (fst (later ! i)), error = None\<rparr>,
                   compensated = None\<rparr>))"
proof -
  from execute_first[OF assms(1,5,3,2,4,7)]
  obtain bound flowState where b: "getFlowIdByIdempotencyKey (storage w1) key = Some bound"
    and f: "get (storage w1) fid = Some flowState" by auto
  from executeSeq_replay[OF assms(3) b f assms(6), of eng]
  have seq: "executeSeq eng fid ((options, now) # later) w =
      (r1 # map (\<lambda>call. Inr (replayResult flowState (opt_event (fst call)))) later, w1)"
    using assms(7) by simp
  show ?thesis
    unfolding seq using f by (simp add: replayResult_def)
qed

theorem execute_idempotent_witness:
  "snd (executeSeq auditedEngine ''f1''
          [(approveWithKey, 1), (approveWithKey, 2), (approveWithKey, 3)] (worldWith [pendingFlow]))
     = snd (execute auditedEngine ''f1'' approveWithKey 1 (worldWith [pendingFlow]))
   \<and> length (fst (executeSeq auditedEngine ''f1''
          [(approveWithKey, 1), (approveWithKey, 2), (approveWithKey, 3)] (worldWith [pendingFlow]))) = 3
   \<and> map_option currentState
        (get (storage (snd (execute auditedEngine ''f1'' approveWithKey 1 (worldWith [pendingFlow])))) ''f1'')
       = Some (Single ''manager-review'')
   \<and> map_option length
        (map_option history
          (get (storage (snd (execute auditedEngine ''f1'' approveWithKey 1 (worldWith [pendingFlow])))) ''f1''))
       = Some 1"
proof -
  let ?w = "worldWith [pendingFlow]"
  let ?first = "execute auditedEngine ''f1'' approveWithKey 1 ?w"
  have h1: "\<forall>m\<in>set (middlewares auditedEngine). respectful m"
    by (simp add: auditedEngine_def audit_respectful rejectLarge_respectful)
  have h2: "''f1'' \<noteq> []" and h3: "''k1'' \<noteq> []" by simp_all
  have h4: "get (storage ?w) ''f1'' \<noteq> None"
    by (simp add: store_defs pendingFlow_def newFlow_def)
  have h5: "idempotencyKey approveWithKey = Some ''k1''" by (simp add: approveWithKey_def)
  have h6: "\<forall>call\<in>set [(approveWithKey, 2::nat), (approveWithKey, 3)]. idempotencyKey (fst call) = Some ''k1''"
    by (simp add: approveWithKey_def)
  have h7: "?first = (fst ?first, snd ?first)" by simp
  have after: "get (storage (snd ?first)) ''f1'' =
      Some (pendingFlow\<lparr>updatedAt := 1,
              history := [\<lparr>history_from = Single ''pending'', history_to = Single ''manager-review'',
                           history_timestamp = 1, history_event = Some ''APPROVE''\<rparr>],
              currentState := Single ''manager-review''\<rparr>)"
    by (simp add: engine_defs machine_defs store_defs example_defs auditedEngine_def
        executeWithMiddleware_def auditMiddleware_def rejectLargeMiddleware_def)
  from execute_idempotent[OF h1 h2 h3 h4 h5 h6 h7] after
  show ?thesis by simp
qed

text \<open>
  The claim as stated fails for the empty key, which \<open>execute\<close> treats as no key: one
  call leaves the approval flow active in \<open>manager-review\<close>; a second call with the
  same empty key runs the event again, finds no transition and fails the flow.
\<close>

theorem execute_empty_key_counterexample:
  "idempotencyKey approveWithEmptyKey = Some ''''
   \<and> map_option status (get (storage (snd (execute approvalEngine ''f1'' approveWithEmptyKey 1
       (worldWith [pendingFlow])))) ''f1'') = Some Active
   \<and> map_option status (get (storage (snd (executeSeq approvalEngine ''f1''
       [(approveWithEmptyKey, 1), (approveWithEmptyKey, 2)] (worldWith [pendingFlow])))) ''f1'') = Some Failed"
  by (simp add: engine_defs machine_defs store_defs example_defs approveWithEmptyKey_def compensate_def)

lemma execute_binds:
  assumes mw: "\<forall>m\<in>set (middlewares eng). respectful m"
    and key: "idempotencyKey options = Some key" "key \<noteq> []"
    and fid: "fid \<noteq> []"
    and fresh: "getFlowIdByIdempotencyKey (storage w) key = None"
    and run: "execute eng fid options now w = (r, w')"
  shows "getFlowIdByIdempotencyKey (storage w') key \<noteq> None"
    and "get (storage w) g \<noteq> None \<Longrightarrow> get (storage w') g \<noteq> None"
proof -
  let ?w1 = "w\<lparr>storage := saveIdempotencyKey key fid (storage w)\<rparr>"
  obtain step where step: "step = (if middlewares eng \<noteq> [] then executeWithMiddleware eng fid options now
               else executeCore eng fid options now)" by simp
  from fresh key run have core: "step ?w1 = (r, w')"
    by (simp add: execute_def checkIdempotencyKey_def step split: if_splits)
  have p: "preservesBindings step"
    using executeWithMiddleware_preserves[OF mw, of fid options now]
      executeCore_preserves[of eng fid options now] by (simp add: step)
  have "getFlowIdByIdempotencyKey (storage ?w1) key \<noteq> None"
    using fid by (simp add: keys_saveKey)
  with p core show "getFlowIdByIdempotencyKey (storage w') key \<noteq> None"
    unfolding preservesBindings_def by blast
  assume "get (storage w) g \<noteq> None"
  then have "get (storage ?w1) g \<noteq> None"
    by (simp add: get_saveKey)
  with p core show "get (storage w') g \<noteq> None"
    unfolding preservesBindings_def by blast
qed

text \<open>
  Claim C10, as the code has it. \<open>execute\<close> binds a fresh, non-empty key to the flow id
  before the flow is loaded: the rest of the call runs on the store that holds the
  binding. When the flow is missing the call raises the not-found error, and when no
  middleware is installed and the flow is not active it raises the not-active error;
  both leave the stored flows untouched and the store with the binding. For a non-empty
  flow id and middleware that neither removes flows nor unbinds keys, the key is bound
  after the call whatever its outcome, and a later \<open>execute\<close> with that key, on any flow
  id, changes nothing: it returns the no-op success carrying the stored flow when the
  flow exists, and raises the not-found error when it does not.
\<close>

theorem key_bound_before_core:
  assumes mw: "\<forall>m\<in>set (middlewares eng). respectful m"
    and fid: "fid \<noteq> []" and key: "key \<noteq> []"
    and opt: "idempotencyKey options = Some key"
    and fresh: "getFlowIdByIdempotencyKey (storage w) key = None"
    and run: "execute eng fid options now w = (r, w')"
  shows "execute eng fid options now w =
           (if middlewares eng \<noteq> [] then executeWithMiddleware eng fid options now
            else executeCore eng fid options now)
             (w\<lparr>storage := saveIdempotencyKey key fid (storage w)\<rparr>) \<and>
         (\<forall>g. get (saveIdempotencyKey key fid (storage w)) g = get (storage w) g) \<and>
         (get (storage w) fid = None \<longrightarrow>
            r = Inl (notFound fid) \<and> w' = w\<lparr>storage := saveIdempotencyKey key fid (storage w)\<rparr>) \<and>
         (middlewares eng = [] \<longrightarrow>
            (\<forall>stored. get (storage w) fid = Some stored \<and> status stored \<noteq> Active \<longrightarrow>
               r = Inl (''Flow is not active. Current status: '' @ statusName (status stored)) \<and>
               w' = w\<lparr>storage := saveIdempotencyKey key fid (storage w)\<rparr>)) \<and>
         getFlowIdByIdempotencyKey (storage w') key \<noteq> None \<and>
         (\<forall>g flowState options' now'.
            idempotencyKey options' = Some key \<and> get (storage w') g = Some flowState \<longrightarrow>
            execute eng g options' now' w' =
              (Inr \<lparr>exec_success = True, exec_state = flowState,
                    exec_transition =
                      \<lparr>success = True, fromState = currentState flowState,
                       toState = currentState flowState,
                       result_event = opt_event options', error = None\<rparr>,
                    compensated = None\<rparr>, w')) \<and>
         (\<forall>g options' now'.
            idempotencyKey options' = Some key \<and> get (storage w') g = None \<longrightarrow>
            execute eng g options' now' w' = (Inl (notFound g), w'))"
    (is "?first \<and> ?same \<and> ?missing \<and> ?inactive \<and> ?bound \<and> ?replay \<and> ?again")
proof -
  let ?w1 = "w\<lparr>storage := saveIdempotencyKey key fid (storage w)\<rparr>"
  have first: ?first
    using opt key fresh by (simp add: execute_def checkIdempotencyKey_def)
  have same: ?same
    by (simp add: get_saveKey)
  have missing: ?missing
  proof (intro impI)
    assume "get (storage w) fid = None"
    then have "get (storage ?w1) fid = None" by (simp add: get_saveKey)
    then have "executeWithMiddleware eng fid options now ?w1 = (Inl (notFound fid), ?w1)"
      and "executeCore eng fid options now ?w1 = (Inl (notFound fid), ?w1)"
      by (simp_all add: executeWithMiddleware_def executeCore_def)
    with first run show "r = Inl (notFound fid) \<and> w' = ?w1"
      by (cases "middlewares eng = []") simp_all
  qed
  have inactive: ?inactive
  proof (intro impI allI)
    fix stored
    assume none: "middlewares eng = []"
      and "get (storage w) fid = Some stored \<and> status stored \<noteq> Active"
    then have "get (storage ?w1) fid = Some stored" "status stored \<noteq> Active"
      by (simp_all add: get_saveKey)
    then have "executeCore eng fid options now ?w1 =
        (Inl (''Flow is not active. Current status: '' @ statusName (status stored)), ?w1)"
      by (simp add: executeCore_def)
    with first run none
    show "r = Inl (''Flow is not active. Current status: '' @ statusName (status stored)) \<and> w' = ?w1"
      by simp
  qed
  have bound: ?bound
    by (rule execute_binds(1)[OF mw opt key fid fresh run])
  then obtain b where b: "getFlowIdByIdempotencyKey (storage w') key = Some b" by auto
  have "execute eng g options' now' w' =
              (Inr \<lparr>exec_success = True, exec_state = flowState,
                    exec_transition =
                      \<lparr>success = True, fromState = currentState flowState,
                       toState = currentState flowState,
                       result_event = opt_event options', error = None\<rparr>,
                    compensated = None\<rparr>, w')"
    if "idempotencyKey options' = Some key" "get (storage w') g = Some flowState"
    for g flowState options' now'
    using execute_replay[OF that(1) key b that(2), of eng now'] by (simp add: replayResult_def)
  then have replay: ?replay by blast
  have "execute eng g options' now' w' = (Inl (notFound g), w')"
    if "idempotencyKey options' = Some key" "get (storage w') g = None"
    for g options' now'
    using execute_missing[OF that(1) key b that(2), of eng now'] .
  then have again: ?again by blast
  from first same missing inactive bound replay again show ?thesis by (intro conjI)
qed

theorem key_bound_before_core_witness:
  "execute approvalEngine ''f1'' approveWithKey 1 (worldWith [pausedFlow]) =
     (Inl ''Flow is not active. Current status: paused'',
      (worldWith [pausedFlow])\<lparr>storage := saveIdempotencyKey ''k1'' ''f1'' (storage (worldWith [pausedFlow]))\<rparr>)
   \<and> execute approvalEngine ''f1'' approveWithKey 2
        ((worldWith [pausedFlow])\<lparr>storage := saveIdempotencyKey ''k1'' ''f1'' (storage (worldWith [pausedFlow]))\<rparr>) =
     (Inr \<lparr>exec_success = True, exec_state = pausedFlow,
           exec_transition =
             \<lparr>success = True, fromState = Single ''pending'', toState = Single ''pending'',
              result_event = ''APPROVE'', error = None\<rparr>,
           compensated = None\<rparr>,
      (worldWith [pausedFlow])\<lparr>storage := saveIdempotencyKey ''k1'' ''f1'' (storage (worldWith [pausedFlow]))\<rparr>)
   \<and> fst (execute auditedEngine ''f1'' approveWithKey 1 (worldWith [pausedFlow])) =
       Inl ''Flow is not active. Current status: paused''
   \<and> getFlowIdByIdempotencyKey
         (storage (snd (execute auditedEngine ''f1'' approveWithKey 1 (worldWith [pausedFlow])))) ''k1''
       \<noteq> None"
proof -
  let ?w = "worldWith [pausedFlow]"
  let ?w1 = "?w\<lparr>storage := saveIdempotencyKey ''k1'' ''f1'' (storage ?w)\<rparr>"
  let ?first = "execute approvalEngine ''f1'' approveWithKey 1 ?w"
  let ?audited = "execute auditedEngine ''f1'' approveWithKey 1 ?w"
  have h1: "\<forall>m\<in>set (middlewares approvalEngine). respectful m" by (simp add: approvalEngine_def)
  have h1': "\<forall>m\<in>set (middlewares auditedEngine). respectful m"
    by (simp add: auditedEngine_def audit_respectful rejectLarge_respectful)
  have h2: "''f1'' \<noteq> []" and h3: "''k1'' \<noteq> []" by simp_all
  have h4: "idempotencyKey approveWithKey = Some ''k1''" by (simp add: approveWithKey_def)
  have h5: "getFlowIdByIdempotencyKey (storage ?w) ''k1'' = None"
    by (simp add: store_defs)
  have h6: "?first = (fst ?first, snd ?first)" and h6': "?audited = (fst ?audited, snd ?audited)"
    by simp_all
  have none: "middlewares approvalEngine = []" by (simp add: approvalEngine_def)
  have g: "get (storage ?w) ''f1'' = Some pausedFlow"
    by (simp add: store_defs pausedFlow_def pendingFlow_def newFlow_def)
  have s: "status pausedFlow = Paused" "currentState pausedFlow = Single ''pending''"
    by (simp_all add: pausedFlow_def pendingFlow_def newFlow_def)
  note t = key_bound_before_core[OF h1 h2 h3 h4 h5 h6]
  from t have inactive: "middlewares approvalEngine = [] \<longrightarrow>
      (\<forall>stored. get (storage ?w) ''f1'' = Some stored \<and> status stored \<noteq> Active \<longrightarrow>
         fst ?first = Inl (''Flow is not active. Current status: '' @ statusName (status stored)) \<and>
         snd ?first = ?w1)"
    by blast
  from inactive none g s have r: "fst ?first = Inl ''Flow is not active. Current status: paused''"
    and w1: "snd ?first = ?w1"
    by (simp_all add: statusName_def)
  from g have g1: "get (storage ?w1) ''f1'' = Some pausedFlow" by (simp add: get_saveKey)
  from t have "\<forall>g flowState options' now'.
            idempotencyKey options' = Some ''k1'' \<and> get (storage (snd ?first)) g = Some flowState \<longrightarrow>
            execute approvalEngine g options' now' (snd ?first) =
              (Inr \<lparr>exec_success = True, exec_state = flowState,
                    exec_transition =
                      \<lparr>success = True, fromState = currentState flowState,
                       toState = currentState flowState,
                       result_event = opt_event options', error = None\<rparr>,
                    compensated = None\<rparr>, snd ?first)"
    by blast
  with h4 g1 w1 have replay: "execute approvalEngine ''f1'' approveWithKey 2 ?w1 =
     (Inr \<lparr>exec_success = True, exec_state = pausedFlow,
           exec_transition =
             \<lparr>success = True, fromState = currentState pausedFlow, toState = currentState pausedFlow,
              result_event = opt_event approveWithKey, error = None\<rparr>,
           compensated = None\<rparr>, ?w1)"
    by simp
  have a: "fst ?audited = Inl ''Flow is not active. Current status: paused''"
    by (simp add: engine_defs store_defs example_defs auditedEngine_def
        executeWithMiddleware_def auditMiddleware_def rejectLargeMiddleware_def)
  from key_bound_before_core[OF h1' h2 h3 h4 h5 h6']
  have b: "getFlowIdByIdempotencyKey (storage (snd ?audited)) ''k1'' \<noteq> None" by blast
  have "?first = (Inl ''Flow is not active. Current status: paused'', ?w1)"
    using r w1 by (metis prod.collapse)
  with replay s a b show ?thesis by (simp add: approveWithKey_def)
qed

text \<open>
  The flow id must not be empty: a binding to the empty flow id reads as absent, so a
  later call with the key binds it again and applies the event.
\<close>

lemma empty_flow_id_binding_reads_absent:
  "fst (execute approvalEngine '''' approveWithKey 1 (worldWith [pendingFlow])) =
     Inl ''Flow with ID \"\" not found''
   \<and> getFlowIdByIdempotencyKey
        (storage (snd (execute approvalEngine '''' approveWithKey 1 (worldWith [pendingFlow])))) ''k1''
       = None
   \<and> map_option currentState
        (get (storage (snd (execute approvalEngine ''f1'' approveWithKey 2
           (snd (execute approvalEngine '''' approveWithKey 1 (worldWith [pendingFlow])))))) ''f1'')
       = Some (Single ''manager-review'')"
  by (simp add: engine_defs machine_defs store_defs example_defs)

text \<open>
  The claim as stated fails when the core raised because the flow is missing: the key
  is bound, and the next call with it raises the same error instead of returning a
  success.
\<close>

theorem execute_missing_flow_counterexample:
  "fst (execute approvalEngine ''f1'' approveWithKey 1 (worldWith [])) =
     Inl ''Flow with ID \"f1\" not found''
   \<and> getFlowIdByIdempotencyKey
        (storage (snd (execute approvalEngine ''f1'' approveWithKey 1 (worldWith [])))) ''k1'' = Some ''f1''
   \<and> fst (execute approvalEngine ''f1'' approveWithKey 2
            (snd (execute approvalEngine ''f1'' approveWithKey 1 (worldWith [])))) =
     Inl ''Flow with ID \"f1\" not found''"
  by (simp add: engine_defs store_defs approveWithKey_def approvalEngine_def)

section \<open>Storage snapshots and queries\<close>

lemma save_get_noop:
  "get st fid = Some y \<Longrightarrow> flowId y = fid \<Longrightarrow> save y st = st"
  by (simp add: save_def get_def update_triv)

text \<open>
  Claim C7 asks that \<open>get\<close> returns a deep copy, so that no write through a returned
  value changes what a later \<open>get\<close> returns. \<open>save\<close> and \<open>get\<close> copy with \<open>{ ...state }\<close>,
  which copies the top-level fields and, for the context, the history and the
  compensations, only the reference. For a stored flow with \<open>orderId = 123\<close> in its
  context and an empty history: after \<open>snapshot.context.orderId = 999\<close> and
  \<open>snapshot.history.push(entry)\<close> on the value a first \<open>get\<close> returned, a later \<open>get\<close>
  shows \<open>orderId = 999\<close> and the pushed entry, where the claim asks for \<open>123\<close> and the
  empty history.
\<close>

theorem snapshot_nested_objects_shared:
  "get (save orderRef emptyStorage) ''test-1'' = Some orderRef
   \<and> map_option (\<lambda>snapshot. readContextKey orderHeap snapshot ''orderId'')
        (get (save orderRef emptyStorage) ''test-1'') = Some (Some 123)
   \<and> map_option (\<lambda>later. readContextKey (setContextKey orderRef ''orderId'' 999 orderHeap) later ''orderId'')
        (get (save orderRef emptyStorage) ''test-1'') = Some (Some 999)
   \<and> map_option (\<lambda>snapshot. readHistory orderHeap snapshot)
        (get (save orderRef emptyStorage) ''test-1'') = Some (Some [])
   \<and> map_option (\<lambda>later. readHistory (pushHistory orderRef forgedEntry orderHeap) later)
        (get (save orderRef emptyStorage) ''test-1'') = Some (Some [forgedEntry])"
  by (simp add: get_def save_def emptyStorage_def orderRef_def orderHeap_def readContextKey_def
      setContextKey_def readHistory_def pushHistory_def resolve_def)

lemma optional_filter:
  "(case opt of Some wanted \<Rightarrow> filter (P wanted) xs | None \<Rightarrow> xs) =
     filter (\<lambda>s. \<forall>wanted. opt = Some wanted \<longrightarrow> P wanted s) xs"
  by (cases opt) simp_all

lemma optional_filter_truthy:
  "(case opt of Some wanted \<Rightarrow> if wanted \<noteq> [] then filter (P wanted) xs else xs | None \<Rightarrow> xs) =
     filter (\<lambda>s. \<forall>wanted. opt = Some wanted \<and> wanted \<noteq> [] \<longrightarrow> P wanted s) xs"
  by (cases opt) simp_all

lemma currentState_filter:
  "(case opt of
      Some targetState \<Rightarrow>
        filter (\<lambda>s.
          (case currentState s of
             Regions active \<Rightarrow>
               (case targetState of
                  Regions targets \<Rightarrow> list_all (\<lambda>t. t \<in> set active) targets
                | Single target \<Rightarrow> target \<in> set active)
           | Single current \<Rightarrow>
               (case targetState of
                  Regions targets \<Rightarrow> current \<in> set targets
                | Single target \<Rightarrow> current = target))) xs
    | None \<Rightarrow> xs) =
   filter (\<lambda>s.
        (case opt of
           None \<Rightarrow> True
         | Some (Single target) \<Rightarrow>
             (case currentState s of
                Single current \<Rightarrow> current = target
              | Regions active \<Rightarrow> target \<in> set active)
         | Some (Regions targets) \<Rightarrow>
             (case currentState s of
                Single current \<Rightarrow> current \<in> set targets
              | Regions active \<Rightarrow> set targets \<subseteq> set active))) xs"
proof (cases opt)
  case None
  then show ?thesis by simp
next
  case (Some targetState)
  show ?thesis
  proof (cases targetState)
    case (Single target)
    with Some show ?thesis
      by (auto intro!: filter_cong split: StateRef.splits)
  next
    case (Regions targets)
    with Some show ?thesis
      by (auto intro!: filter_cong split: StateRef.splits simp: list_all_iff)
  qed
qed

text \<open>
  Claim C8, as the code has it. \<open>list\<close> returns, in storage order, the flows that pass
  every filter present. For the current-state filter: a single requested state matches
  a flow in that state, or a parallel flow with a region in that state; a list of
  requested states matches a parallel flow when every requested state is among its
  region states, and matches a non-parallel flow when its state is one of the
  requested ones.
\<close>

theorem list_flows_matching:
  "list_flows st (Some f) =
     filter (\<lambda>s.
        (\<forall>wanted. filter_status f = Some wanted \<longrightarrow> status s = wanted) \<and>
        (\<forall>wanted. filter_flowDefinitionId f = Some wanted \<and> wanted \<noteq> [] \<longrightarrow> flowDefinitionId s = wanted) \<and>
        (\<forall>wanted. filter_version f = Some wanted \<and> wanted \<noteq> [] \<longrightarrow> version s = Some wanted) \<and>
        (\<forall>wanted. filter_parentFlowId f = Some wanted \<longrightarrow> parentFlowId s = Some wanted) \<and>
        (case filter_currentState f of
           None \<Rightarrow> True
         | Some (Single target) \<Rightarrow>
             (case currentState s of
                Single current \<Rightarrow> current = target
              | Regions active \<Rightarrow> target \<in> set active)
         | Some (Regions targets) \<Rightarrow>
             (case currentState s of
                Single current \<Rightarrow> current \<in> set targets
              | Regions active \<Rightarrow> set targets \<subseteq> set active)))
       (map snd (stored_states st))"
proof -
  let ?xs = "map snd (stored_states st)"
  let ?A = "\<lambda>s. \<forall>wanted. filter_status f = Some wanted \<longrightarrow> status s = wanted"
  let ?B = "\<lambda>s. \<forall>wanted. filter_flowDefinitionId f = Some wanted \<and> wanted \<noteq> [] \<longrightarrow> flowDefinitionId s = wanted"
  let ?C = "\<lambda>s. \<forall>wanted. filter_version f = Some wanted \<and> wanted \<noteq> [] \<longrightarrow> version s = Some wanted"
  let ?D = "\<lambda>s. \<forall>wanted. filter_parentFlowId f = Some wanted \<longrightarrow> parentFlowId s = Some wanted"
  let ?E = "\<lambda>s. (case filter_currentState f of
           None \<Rightarrow> True
         | Some (Single target) \<Rightarrow>
             (case currentState s of
                Single current \<Rightarrow> current = target
              | Regions active \<Rightarrow> target \<in> set active)
         | Some (Regions targets) \<Rightarrow>
             (case currentState s of
                Single current \<Rightarrow> current \<in> set targets
              | Regions active \<Rightarrow> set targets \<subseteq> set active))"
  have "list_flows st (Some f) = filter ?E (filter ?D (filter ?C (filter ?B (filter ?A ?xs))))"
    unfolding list_flows_def Let_def option.case
    by (simp only: currentState_filter
          optional_filter[where opt = "filter_parentFlowId f" and P = "\<lambda>wanted s. parentFlowId s = Some wanted"]
          optional_filter_truthy[where opt = "filter_version f" and P = "\<lambda>wanted s. version s = Some wanted"]
          optional_filter_truthy[where opt = "filter_flowDefinitionId f" and P = "\<lambda>wanted s. flowDefinitionId s = wanted"]
          optional_filter[where opt = "filter_status f" and P = "\<lambda>wanted s. status s = wanted"])
  also have "\<dots> = filter (\<lambda>s. ?A s \<and> ?B s \<and> ?C s \<and> ?D s \<and> ?E s) ?xs"
    by (simp only: filter_filter conj_assoc)
  finally show ?thesis .
qed

theorem list_flows_matching_witness:
  "list_flows (storage (worldWith [pendingFlow, parallelFlow])) (Some (currentStateFilter (Single ''x'')))
     = [parallelFlow]"
proof -
  have s: "map snd (stored_states (storage (worldWith [pendingFlow, parallelFlow]))) =
             [pendingFlow, parallelFlow]"
    by (simp add: worldWith_def save_def emptyStorage_def pendingFlow_def parallelFlow_def newFlow_def)
  have c: "currentState pendingFlow = Single ''pending''" "currentState parallelFlow = Regions [''a'', ''x'']"
    by (simp_all add: pendingFlow_def parallelFlow_def newFlow_def)
  show ?thesis
    by (simp add: list_flows_matching s c currentStateFilter_def)
qed

text \<open>
  The claim as stated fails for a list-valued filter on a non-parallel flow: the flow
  in state \<open>pending\<close> matches the request for \<open>pending\<close> and \<open>approved\<close>, although
  \<open>approved\<close> is not among its active states.
\<close>

theorem list_filter_any_of_counterexample:
  "list_flows (storage (worldWith [pendingFlow]))
      (Some (currentStateFilter (Regions [''pending'', ''approved''])))
     = [pendingFlow]
   \<and> currentState pendingFlow = Single ''pending''
   \<and> \<not> set [''pending'', ''approved''] \<subseteq> {''pending''}"
  by (simp add: list_flows_def worldWith_def save_def emptyStorage_def pendingFlow_def newFlow_def
      currentStateFilter_def)

section \<open>Possible transitions\<close>

lemma setAdd_distinct: "distinct xs \<Longrightarrow> distinct (setAdd xs e)"
  by (simp add: setAdd_def)

lemma foldl_setAdd_distinct: "distinct xs \<Longrightarrow> distinct (foldl setAdd xs es)"
  by (induction es arbitrary: xs) (simp_all add: setAdd_distinct)

lemma foldl_setAdd_set: "set (foldl setAdd xs es) = set xs \<union> set es"
  by (induction es arbitrary: xs) (auto simp: setAdd_def)

lemma getPossibleTransitions_parallel:
  assumes "get (storage w) fid = Some flowState" "currentState flowState = Regions regions"
  shows "\<exists>events. getPossibleTransitions eng fid w = Inr events \<and> distinct events \<and>
           set events = (\<Union>s\<in>set regions. event ` set (getTransitions (engine_config eng) s))"
proof -
  have "distinct (foldl (\<lambda>allEvents s.
                             foldl setAdd allEvents (map event (getTransitions (engine_config eng) s)))
                      acc regions) \<and>
        set (foldl (\<lambda>allEvents s.
                             foldl setAdd allEvents (map event (getTransitions (engine_config eng) s)))
                      acc regions) =
          set acc \<union> (\<Union>s\<in>set regions. event ` set (getTransitions (engine_config eng) s))"
    if "distinct acc" for acc
    using that
    by (induction regions arbitrary: acc) (auto simp: foldl_setAdd_distinct foldl_setAdd_set)
  from this[of "[]"] assms show ?thesis
    by (simp add: getPossibleTransitions_def)
qed

text \<open>
  Claim C9 asks for a list without duplicates. For a parallel flow the events are
  collected in a set (lemma above). For a non-parallel flow the code maps the
  transitions to their events: the approval flow, whose state \<open>pending\<close> has two guarded
  transitions on \<open>APPROVE\<close>, gets that event twice.
\<close>

theorem getPossibleTransitions_duplicates:
  "getPossibleTransitions approvalEngine ''f1'' (worldWith [pendingFlow]) =
     Inr [''APPROVE'', ''APPROVE'']
   \<and> \<not> distinct [''APPROVE'', ''APPROVE'']"
  by (simp add: getPossibleTransitions_def store_defs example_defs getTransitions_def
      isAtomicState_def)

end
